(* ===== verification/Prelude.thy ===== *)
theory Prelude
  imports Main "HOL-Library.AList" "HOL-Library.Sublist" "HOL-Library.Multiset"
begin

text \<open>
  What every component of the development shares and no component owns: results
  that carry a Python exception (\<open>'e + 'a\<close>, \<open>Inl\<close> the exception), their sequencing,
  the insertion-ordered dictionary of Python as an association list, and the facts
  on lists that the component proofs use.
\<close>

named_theorems py_eval \<open>equations that compute closed Python values\<close>
named_theorems py_res \<open>results of operations that may raise\<close>

section \<open>Results that may be an exception\<close>

type_synonym ('e, 'a) res = "'e + 'a"

text \<open>Sequencing: an exception of the first computation is the result of the whole.\<close>

definition bindR :: "('e, 'a) res \<Rightarrow> ('a \<Rightarrow> ('e, 'b) res) \<Rightarrow> ('e, 'b) res" where
  "bindR m f = (case m of Inl e \<Rightarrow> Inl e | Inr x \<Rightarrow> f x)"

lemma bindR_simps [simp, py_eval]: "bindR (Inl e) f = Inl e" "bindR (Inr x) f = f x"
  by (simp_all add: bindR_def)

lemma bindR_Inr_iff [py_res]: "bindR m f = Inr y \<longleftrightarrow> (\<exists>x. m = Inr x \<and> f x = Inr y)"
  by (cases m) auto

lemma bindR_Inl_iff [py_res]:
  "bindR m f = Inl e \<longleftrightarrow> m = Inl e \<or> (\<exists>x. m = Inr x \<and> f x = Inl e)"
  by (cases m) auto

lemma bindR_assoc: "bindR (bindR m f) g = bindR m (\<lambda>x. bindR (f x) g)"
  by (cases m) simp_all

lemma bindR_cong [fundef_cong]:
  "m = m' \<Longrightarrow> (\<And>x. m' = Inr x \<Longrightarrow> f x = f' x) \<Longrightarrow> bindR m f = bindR m' f'"
  by (cases m') auto

text \<open>A comprehension over a list stops at the first element that raises.\<close>

fun traverse :: "('a \<Rightarrow> ('e, 'b) res) \<Rightarrow> 'a list \<Rightarrow> ('e, 'b list) res" where
  "traverse f [] = Inr []"
| "traverse f (x # xs) = bindR (f x) (\<lambda>y. bindR (traverse f xs) (\<lambda>ys. Inr (y # ys)))"

lemma traverse_Inr_iff [py_res]:
  "traverse f xs = Inr ys \<longleftrightarrow> list_all2 (\<lambda>x y. f x = Inr y) xs ys"
proof (induction xs arbitrary: ys)
  case Nil
  then show ?case by auto
next
  case (Cons x xs)
  then show ?case by (auto simp: bindR_Inr_iff list_all2_Cons1)
qed

lemma traverse_Inl: "traverse f xs = Inl e \<Longrightarrow> \<exists>x \<in> set xs. f x = Inl e"
  by (induction xs) (auto simp: bindR_Inl_iff)

lemma traverse_total: "(\<And>x. x \<in> set xs \<Longrightarrow> f x = Inr (g x)) \<Longrightarrow> traverse f xs = Inr (map g xs)"
  by (induction xs) auto

lemma traverse_length: "traverse f xs = Inr ys \<Longrightarrow> length ys = length xs"
  by (auto simp: traverse_Inr_iff dest: list_all2_lengthD)

lemma traverse_append:
  "traverse f (xs @ ys) = bindR (traverse f xs) (\<lambda>us. bindR (traverse f ys) (\<lambda>vs. Inr (us @ vs)))"
  by (induction xs) (auto simp: bindR_def split: sum.splits)

section \<open>Python dictionaries\<close>

text \<open>
  A \<open>dict\<close> keeps its insertion order and an assignment to a known key keeps the key's
  place: \<open>map_of\<close> looks up, \<^const>\<open>AList.update\<close> assigns, \<open>setdefault\<close> assigns only
  where the key is absent.
\<close>

type_synonym ('k, 'v) dict = "('k \<times> 'v) list"

definition setdefault :: "'k \<Rightarrow> 'v \<Rightarrow> ('k, 'v) dict \<Rightarrow> ('k, 'v) dict" where
  "setdefault k v d = (if map_of d k = None then d @ [(k, v)] else d)"

definition keys :: "('k, 'v) dict \<Rightarrow> 'k list" where
  "keys d = map fst d"

definition dvalues :: "('k, 'v) dict \<Rightarrow> 'v list" where
  "dvalues d = map snd d"

definition wf_dict :: "('k, 'v) dict \<Rightarrow> bool" where
  "wf_dict d \<longleftrightarrow> distinct (keys d)"

lemma wf_dict_Nil [simp]: "wf_dict []"
  by (simp add: wf_dict_def keys_def)

lemma map_of_None_keys: "map_of d k = None \<longleftrightarrow> k \<notin> set (keys d)"
  by (simp add: keys_def map_of_eq_None_iff)

lemma wf_dict_setdefault [intro]: "wf_dict d \<Longrightarrow> wf_dict (setdefault k v d)"
  by (auto simp: wf_dict_def setdefault_def keys_def map_of_eq_None_iff)

lemma wf_dict_update [intro]: "wf_dict d \<Longrightarrow> wf_dict (AList.update k v d)"
  by (simp add: wf_dict_def keys_def distinct_update)

lemma set_keys_setdefault: "set (keys (setdefault k v d)) = insert k (set (keys d))"
  by (auto simp: setdefault_def keys_def map_of_eq_None_iff)

lemma set_keys_update: "set (keys (AList.update k v d)) = insert k (set (keys d))"
  by (simp add: keys_def dom_update)

lemma map_of_setdefault:
  "map_of (setdefault k v d) k' = (if k' = k \<and> map_of d k = None then Some v else map_of d k')"
  by (auto simp: setdefault_def map_add_def split: option.splits)

lemma map_of_update: "map_of (AList.update k v d) k' = (if k' = k then Some v else map_of d k')"
  by (simp add: update_conv')

lemma map_of_wf_mem: "wf_dict d \<Longrightarrow> (k, v) \<in> set d \<longleftrightarrow> map_of d k = Some v"
  by (simp add: wf_dict_def keys_def)

lemma update_fresh: "k \<notin> set (keys d) \<Longrightarrow> AList.update k v d = d @ [(k, v)]"
  by (induction d) (auto simp: keys_def)

lemma keys_update: "keys (AList.update k v d) = (if k \<in> set (keys d) then keys d else keys d @ [k])"
  by (induction d) (auto simp: keys_def)

section \<open>Lists\<close>

text \<open>The suffixes of a list by length: what dropping from the front leaves.\<close>

lemma suffix_drop_eq: "suffix ys xs \<Longrightarrow> drop (length xs - length ys) xs = ys"
  by (auto simp: suffix_def)

lemma suffix_last: "suffix ys xs \<Longrightarrow> ys \<noteq> [] \<Longrightarrow> last ys = last xs"
  by (auto simp: suffix_def)

lemma subseq_distinct: "subseq xs ys \<Longrightarrow> distinct ys \<Longrightarrow> distinct xs"
  by (induction rule: list_emb.induct) (auto dest: list_emb_set)

lemma sum_list_map_member: "x \<in> set xs \<Longrightarrow> f x \<le> (sum_list (map f xs) :: nat)"
  by (simp add: member_le_sum_list)

lemma dropWhile_hd_not: "dropWhile P xs = y # ys \<Longrightarrow> \<not> P y"
  by (metis hd_dropWhile list.discI list.sel(1))

lemma filter_split_perm: "mset (filter P xs) + mset (filter (\<lambda>x. \<not> P x) xs) = mset xs"
  by (simp add: multiset_partition [symmetric])

section \<open>Running a component over a list of calls\<close>

text \<open>
  A component is a step function: state and call to the new state and the outcome of the
  call. What a batch of calls does is its run; the contracts a step function may fulfil are
  the locales below, and a component interprets them on its own operation.
\<close>

fun run_steps :: "('s \<Rightarrow> 'i \<Rightarrow> 's \<times> 'o) \<Rightarrow> 's \<Rightarrow> 'i list \<Rightarrow> 's \<times> 'o list" where
  "run_steps step s [] = (s, [])"
| "run_steps step s (i # is) =
     (case step s i of (s1, y) \<Rightarrow> case run_steps step s1 is of (s2, ys) \<Rightarrow> (s2, y # ys))"

lemma run_steps_Cons:
  "fst (run_steps step s (i # is)) = fst (run_steps step (fst (step s i)) is)"
  "snd (run_steps step s (i # is)) = snd (step s i) # snd (run_steps step (fst (step s i)) is)"
  by (simp_all add: case_prod_beta)

lemma length_run_steps [simp]: "length (snd (run_steps step s is)) = length is"
  by (induction "is" arbitrary: s) (simp_all add: case_prod_beta)

lemma run_steps_append:
  "fst (run_steps step s (is @ js)) = fst (run_steps step (fst (run_steps step s is)) js)"
  "snd (run_steps step s (is @ js)) =
     snd (run_steps step s is) @ snd (run_steps step (fst (run_steps step s is)) js)"
  by (induction "is" arbitrary: s) (simp_all add: case_prod_beta)

text \<open>An invariant that every permitted call keeps holds after every batch of such calls.\<close>

locale step_invariant =
  fixes step :: "'s \<Rightarrow> 'i \<Rightarrow> 's \<times> 'o"
    and inv :: "'s \<Rightarrow> bool"
    and permitted :: "'i \<Rightarrow> bool"
  assumes keeps: "inv s \<Longrightarrow> permitted i \<Longrightarrow> inv (fst (step s i))"
begin

lemma run_keeps: "inv s \<Longrightarrow> list_all permitted is \<Longrightarrow> inv (fst (run_steps step s is))"
proof (induction "is" arbitrary: s)
  case (Cons i "is")
  then show ?case by (simp add: run_steps_Cons keeps del: run_steps.simps)
qed simp

end

text \<open>
  A relation between the states before and after a call that is reflexive and transitive
  (the state only grows, a field never changes) holds across every batch.
\<close>

locale step_progress =
  fixes step :: "'s \<Rightarrow> 'i \<Rightarrow> 's \<times> 'o"
    and le :: "'s \<Rightarrow> 's \<Rightarrow> bool"
  assumes refl: "le s s"
    and trans: "le s t \<Longrightarrow> le t u \<Longrightarrow> le s u"
    and advances: "le s (fst (step s i))"
begin

lemma run_advances: "le s (fst (run_steps step s is))"
proof (induction "is" arbitrary: s)
  case Nil
  then show ?case by (simp add: refl)
next
  case (Cons i "is")
  show ?case
    using advances [of s i] Cons.IH [of "fst (step s i)"]
    by (simp add: run_steps_Cons del: run_steps.simps) (rule trans)
qed

end

text \<open>Every call costs at most a fixed amount, so a batch costs at most that often.\<close>

locale step_cost =
  fixes step :: "'s \<Rightarrow> 'i \<Rightarrow> 's \<times> 'o"
    and cost :: "'s \<Rightarrow> nat"
    and bound :: nat
  assumes bounded: "cost (fst (step s i)) \<le> cost s + bound"
begin

lemma run_cost: "cost (fst (run_steps step s is)) \<le> cost s + bound * length is"
proof (induction "is" arbitrary: s)
  case (Cons i "is")
  show ?case
    using bounded [of s i] Cons.IH [of "fst (step s i)"]
    by (simp add: run_steps_Cons del: run_steps.simps)
qed simp

end

text \<open>
  A call whose outcome is bad may leave the component dead; a dead component does not change
  any more and every later call has a bad outcome as well.
\<close>

locale fail_fast =
  fixes step :: "'s \<Rightarrow> 'i \<Rightarrow> 's \<times> 'o"
    and dead :: "'s \<Rightarrow> bool"
    and bad :: "'s \<Rightarrow> 'o \<Rightarrow> bool"
  assumes frozen: "dead s \<Longrightarrow> fst (step s i) = s"
    and refused: "dead s \<Longrightarrow> bad s (snd (step s i))"
begin

lemma dead_run: "dead s \<Longrightarrow> fst (run_steps step s is) = s \<and> (\<forall>y \<in> set (snd (run_steps step s is)). bad s y)"
proof (induction "is")
  case (Cons i "is")
  then show ?case by (simp add: run_steps_Cons frozen refused del: run_steps.simps)
qed simp

text \<open>After the call that killed the component nothing happens any more.\<close>

lemma dead_suffix:
  assumes "dead (fst (run_steps step s is))"
  shows "fst (run_steps step s (is @ js)) = fst (run_steps step s is)
    \<and> (\<forall>y \<in> set (drop (length is) (snd (run_steps step s (is @ js)))). bad (fst (run_steps step s is)) y)"
  using dead_run [OF assms, of js] by (simp add: run_steps_append)

end

end
