(* ===== verification/PyText.thy ===== *)
theory PyText
  imports Prelude "HOL-Library.Word"
begin

text \<open>
  Python's \<open>str\<close> and \<open>bytes\<close> as the code uses them. A \<open>str\<close> is the list of its code
  points, so \<open>len\<close> counts what Python counts; a byte is an \<open>8 word\<close>. The operations are
  those of the language's library: UTF-8 encoding and lossy decoding, \<open>lower\<close>, \<open>strip\<close>,
  \<open>startswith\<close>, \<open>partition\<close>, \<open>join\<close>, \<open>int\<close> and decimal formatting. The case mapping and
  the character classes of code points beyond ASCII are the interpreter's copy of the
  Unicode Character Database, data that is not in the repository: the record \<open>interp\<close> is
  the parameter that stands for it. ASCII, which is what the code compares against, is
  concrete everywhere.
\<close>

section \<open>Text, bytes, literals\<close>

type_synonym pystr = "nat list"
type_synonym byte = "8 word"
type_synonym bytes = "byte list"

definition lit :: "string \<Rightarrow> pystr" where
  "lit s = map of_char s"

lemma lit_simps [simp, py_eval]: "lit [] = []" "lit (c # cs) = of_char c # lit cs"
  by (simp_all add: lit_def)

lemma lit_append: "lit (s @ t) = lit s @ lit t"
  by (simp add: lit_def)

lemma lit_inject: "lit s = lit t \<longleftrightarrow> s = t"
proof -
  have "inj (of_char :: char \<Rightarrow> nat)" by (auto intro: injI)
  then show ?thesis by (simp add: lit_def inj_map_eq_map)
qed

text \<open>
  What the code takes from the interpreter it runs on: the Unicode data base beyond ASCII
  and the sum of two numbers of which one is a float (by their \<open>repr\<close>).
\<close>

record interp =
  ucd_lower :: "pystr \<Rightarrow> pystr" \<comment> \<open>\<open>str.lower\<close> of a string that is not all ASCII\<close>
  ucd_printable :: "nat \<Rightarrow> bool" \<comment> \<open>\<open>str.isprintable\<close> of a code point beyond ASCII\<close>
  ucd_decimal :: "nat \<Rightarrow> nat option" \<comment> \<open>decimal digit value of a code point beyond ASCII\<close>
  float_add :: "pystr \<Rightarrow> pystr \<Rightarrow> pystr"

text \<open>An interpreter that knows ASCII only, for concrete runs.\<close>

definition plain_interp :: interp where
  "plain_interp = \<lparr>ucd_lower = (\<lambda>s. s), ucd_printable = (\<lambda>c. False), ucd_decimal = (\<lambda>c. None),
     float_add = (\<lambda>x y. x)\<rparr>"

definition ascii :: "pystr \<Rightarrow> bool" where
  "ascii s \<longleftrightarrow> (\<forall>c \<in> set s. c < 128)"

lemma ascii_code [py_eval, simp]: "ascii []" "ascii (c # s) \<longleftrightarrow> c < 128 \<and> ascii s"
  by (auto simp: ascii_def)

lemma ascii_append [simp]: "ascii (s @ t) \<longleftrightarrow> ascii s \<and> ascii t"
  by (auto simp: ascii_def)

section \<open>UTF-8\<close>

text \<open>
  \<open>str.encode()\<close>: a surrogate has no UTF-8 form and raises \<open>UnicodeEncodeError\<close>
  (\<open>None\<close>); so does a number that is no code point, which no \<open>str\<close> holds.
\<close>

definition oct :: "nat \<Rightarrow> byte" where
  "oct n = of_nat n"

lemma unat_oct: "n < 256 \<Longrightarrow> unat (oct n) = n"
  by (simp add: oct_def unat_of_nat)

lemma unat_byte_lt: "unat (b :: byte) < 256"
  using unsigned_less [of b] by simp

lemma oct_high: "0x80 \<le> n \<Longrightarrow> n < 256 \<Longrightarrow> (0x80 :: byte) \<le> oct n"
  by (simp add: word_le_nat_alt unat_oct)

definition utf8_char :: "nat \<Rightarrow> bytes option" where
  "utf8_char c =
     (if c < 0x80 then Some [oct c]
      else if c < 0x800 then Some [oct (0xC0 + c div 64), oct (0x80 + c mod 64)]
      else if 0xD800 \<le> c \<and> c \<le> 0xDFFF then None
      else if c < 0x10000 then
        Some [oct (0xE0 + c div 4096), oct (0x80 + c div 64 mod 64), oct (0x80 + c mod 64)]
      else if c < 0x110000 then
        Some [oct (0xF0 + c div 262144), oct (0x80 + c div 4096 mod 64),
              oct (0x80 + c div 64 mod 64), oct (0x80 + c mod 64)]
      else None)"

fun encode :: "pystr \<Rightarrow> bytes option" where
  "encode [] = Some []"
| "encode (c # s) =
     (case utf8_char c of None \<Rightarrow> None
      | Some b \<Rightarrow> (case encode s of None \<Rightarrow> None | Some bs \<Rightarrow> Some (b @ bs)))"

lemma encode_append:
  "encode (s @ t) = (case encode s of None \<Rightarrow> None
     | Some a \<Rightarrow> (case encode t of None \<Rightarrow> None | Some b \<Rightarrow> Some (a @ b)))"
  by (induction s) (auto split: option.splits)

lemma encode_append_Some:
  "encode (s @ t) = Some u \<longleftrightarrow> (\<exists>a b. encode s = Some a \<and> encode t = Some b \<and> u = a @ b)"
  by (auto simp: encode_append split: option.splits)

lemma encode_ascii: "ascii s \<Longrightarrow> encode s = Some (map oct s)"
  by (induction s) (auto simp: utf8_char_def)

lemma utf8_char_high:
  assumes "utf8_char c = Some b" and "128 \<le> c" and "x \<in> set b"
  shows "(0x80 :: byte) \<le> x"
proof -
  have m: "y mod 64 < 0x80" for y :: nat
    by (rule less_trans [of _ 64]) simp_all
  show ?thesis
    using assms m [of c] m [of "c div 64"] m [of "c div 4096"]
    by (auto simp: utf8_char_def split: if_splits intro!: oct_high)
qed

lemma utf8_char_low: "c < 128 \<Longrightarrow> utf8_char c = Some [oct c]"
  by (simp add: utf8_char_def)

text \<open>
  No byte below 128 enters an encoding but as the ASCII character it stands for: what
  the header checks on text say carries over to the bytes on the wire.
\<close>

lemma encode_low_byte:
  assumes "encode s = Some b" and "x \<in> set b" and "x < 0x80"
  shows "unat x \<in> set s"
  using assms
proof (induction s arbitrary: b)
  case Nil
  then show ?case by simp
next
  case (Cons c s)
  then obtain u v where u: "utf8_char c = Some u" and v: "encode s = Some v" and b: "b = u @ v"
    by (auto split: option.splits)
  show ?case
  proof (cases "x \<in> set v")
    case True
    with Cons v show ?thesis by auto
  next
    case False
    with Cons.prems b have xu: "x \<in> set u" by simp
    have "c < 128"
      using utf8_char_high [OF u _ xu] Cons.prems(3) by (meson leD not_le_imp_less)
    with u have "u = [oct c]" by (simp add: utf8_char_low)
    with xu \<open>c < 128\<close> show ?thesis by (simp add: unat_oct)
  qed
qed

text \<open>
  \<open>bytes.decode("utf-8", "replace")\<close>: a byte that starts no character, and the longest
  prefix of a character that its next byte breaks off, become one U+FFFD each.
\<close>

definition cont :: "byte \<Rightarrow> bool" where
  "cont b \<longleftrightarrow> 0x80 \<le> b \<and> b \<le> 0xBF"

definition second_ok :: "byte \<Rightarrow> byte \<Rightarrow> bool" where
  "second_ok b c \<longleftrightarrow>
     (if b = 0xE0 then 0xA0 \<le> c \<and> c \<le> 0xBF else if b = 0xED then 0x80 \<le> c \<and> c \<le> 0x9F
      else if b = 0xF0 then 0x90 \<le> c \<and> c \<le> 0xBF else if b = 0xF4 then 0x80 \<le> c \<and> c \<le> 0x8F
      else cont c)"

fun decode_replace :: "bytes \<Rightarrow> pystr" where
  "decode_replace [] = []"
| "decode_replace (b # bs) =
     (if b < 0x80 then unat b # decode_replace bs
      else if 0xC2 \<le> b \<and> b \<le> 0xDF then
        (case bs of
           c # cs \<Rightarrow> if cont c then ((unat b - 0xC0) * 64 + (unat c - 0x80)) # decode_replace cs
                     else 0xFFFD # decode_replace bs
         | [] \<Rightarrow> [0xFFFD])
      else if 0xE0 \<le> b \<and> b \<le> 0xEF then
        (case bs of
           c # cs \<Rightarrow>
             if second_ok b c then
               (case cs of
                  d # ds \<Rightarrow>
                    if cont d then
                      ((unat b - 0xE0) * 4096 + (unat c - 0x80) * 64 + (unat d - 0x80))
                        # decode_replace ds
                    else 0xFFFD # decode_replace cs
                | [] \<Rightarrow> [0xFFFD])
             else 0xFFFD # decode_replace bs
         | [] \<Rightarrow> [0xFFFD])
      else if 0xF0 \<le> b \<and> b \<le> 0xF4 then
        (case bs of
           c # cs \<Rightarrow>
             if second_ok b c then
               (case cs of
                  d # ds \<Rightarrow>
                    if cont d then
                      (case ds of
                         e # es \<Rightarrow>
                           if cont e then
                             ((unat b - 0xF0) * 262144 + (unat c - 0x80) * 4096
                              + (unat d - 0x80) * 64 + (unat e - 0x80)) # decode_replace es
                           else 0xFFFD # decode_replace ds
                       | [] \<Rightarrow> [0xFFFD])
                    else 0xFFFD # decode_replace cs
                | [] \<Rightarrow> [0xFFFD])
             else 0xFFFD # decode_replace bs
         | [] \<Rightarrow> [0xFFFD])
      else 0xFFFD # decode_replace bs)"

declare decode_replace.simps(2) [simp del]

lemma decode_replace_low: "b < 0x80 \<Longrightarrow> decode_replace (b # bs) = unat b # decode_replace bs"
  by (simp add: decode_replace.simps)

section \<open>Decoding inverts encoding\<close>

lemma oct_le: "m < 256 \<Longrightarrow> n < 256 \<Longrightarrow> oct m \<le> oct n \<longleftrightarrow> m \<le> n"
  by (simp add: word_le_nat_alt unat_oct)

lemma oct_lt: "m < 256 \<Longrightarrow> n < 256 \<Longrightarrow> oct m < oct n \<longleftrightarrow> m < n"
  by (simp add: word_less_nat_alt unat_oct)

lemma oct_eq: "m < 256 \<Longrightarrow> n < 256 \<Longrightarrow> oct m = oct n \<longleftrightarrow> m = n"
  by (metis unat_oct)

lemma byte_lits:
  "(0x80 :: byte) = oct 0x80" "(0xBF :: byte) = oct 0xBF" "(0xC2 :: byte) = oct 0xC2" "(0xDF :: byte) = oct 0xDF"
  "(0xE0 :: byte) = oct 0xE0" "(0xEF :: byte) = oct 0xEF" "(0xF0 :: byte) = oct 0xF0" "(0xF4 :: byte) = oct 0xF4"
  "(0xA0 :: byte) = oct 0xA0" "(0xED :: byte) = oct 0xED" "(0x9F :: byte) = oct 0x9F" "(0x90 :: byte) = oct 0x90"
  "(0x8F :: byte) = oct 0x8F"
  by (simp_all add: oct_def)

lemma cont_oct: "n < 256 \<Longrightarrow> cont (oct n) \<longleftrightarrow> 0x80 \<le> n \<and> n \<le> 0xBF"
  by (simp add: cont_def byte_lits oct_le)

lemma second_oct: "m < 256 \<Longrightarrow> n < 256 \<Longrightarrow> second_ok (oct m) (oct n) \<longleftrightarrow>
     (if m = 0xE0 then 0xA0 \<le> n \<and> n \<le> 0xBF else if m = 0xED then 0x80 \<le> n \<and> n \<le> 0x9F
      else if m = 0xF0 then 0x90 \<le> n \<and> n \<le> 0xBF else if m = 0xF4 then 0x80 \<le> n \<and> n \<le> 0x8F
      else 0x80 \<le> n \<and> n \<le> 0xBF)"
  by (simp add: second_ok_def cont_oct byte_lits oct_le oct_eq)

lemma split_base64: "(c :: nat) div 64 * 64 + c mod 64 = c" by simp

lemma decode_utf8_char:
  assumes "utf8_char c = Some b"
  shows "decode_replace (b @ r) = c # decode_replace r"
proof -
  have m: "y mod 64 < 64" for y :: nat by simp
  consider "c < 0x80" | "0x80 \<le> c" "c < 0x800" | "0x800 \<le> c" "c < 0xD800 \<or> 0xDFFF < c" "c < 0x10000"
    | "0x10000 \<le> c" "c < 0x110000"
    using assms by (auto simp: utf8_char_def split: if_splits; linarith)
  then show ?thesis
  proof cases
    case 1
    then have "oct c < 0x80" "b = [oct c]" using assms by (simp_all add: utf8_char_low byte_lits oct_lt)
    then show ?thesis using 1 by (simp add: decode_replace.simps unat_oct)
  next
    case 2
    have "2 \<le> c div 64" "c div 64 < 32" using 2 by (simp_all add: less_mult_imp_div_less)
    then have "b = [oct (0xC0 + c div 64), oct (0x80 + c mod 64)]" "0xC0 + c div 64 < 256" "0x80 + c mod 64 < 256"
       "0xC2 \<le> 0xC0 + c div 64" "0xC0 + c div 64 \<le> 0xDF" "0x80 + c mod 64 \<le> 0xBF"
      using assms 2 m [of c] by (auto simp: utf8_char_def)
    then show ?thesis
      using split_base64 [of c] by (simp add: decode_replace.simps byte_lits oct_lt oct_le unat_oct cont_oct)
  next
    case 3
    obtain x y z where x: "x = c div 4096" and y: "y = c div 64 mod 64" and z: "z = c mod 64" by blast
    have c: "c = x * 4096 + y * 64 + z"
    proof -
      have "c div 64 = x * 64 + y" using split_base64 [of "c div 64"] by (simp add: x y div_mult2_eq [symmetric])
      moreover have "c = c div 64 * 64 + z" by (simp add: z)
      ultimately show ?thesis by linarith
    qed
    have lim: "x < 16" "y < 64" "z < 64" using 3 by (simp_all add: x y z less_mult_imp_div_less)
    have b: "b = [oct (0xE0 + x), oct (0x80 + y), oct (0x80 + z)]"
      using assms 3 by (auto simp: utf8_char_def x y z)
    have "second_ok (oct (0xE0 + x)) (oct (0x80 + y))"
      using lim 3 c by (auto simp: second_oct)
    moreover have "cont (oct (0x80 + z))" using lim by (simp add: cont_oct)
    ultimately show ?thesis
      using lim by (simp add: b decode_replace.simps byte_lits oct_lt oct_le unat_oct c)
  next
    case 4
    obtain w x y z where w: "w = c div 262144" and x: "x = c div 4096 mod 64" and y: "y = c div 64 mod 64"
      and z: "z = c mod 64" by blast
    have c: "c = w * 262144 + x * 4096 + y * 64 + z"
    proof -
      have "c div 4096 = w * 64 + x" using split_base64 [of "c div 4096"] by (simp add: w x div_mult2_eq [symmetric])
      moreover have "c div 64 = c div 4096 * 64 + y"
        using split_base64 [of "c div 64"] by (simp add: y div_mult2_eq [symmetric])
      moreover have "c = c div 64 * 64 + z" by (simp add: z)
      ultimately show ?thesis by linarith
    qed
    have lim: "w < 5" "x < 64" "y < 64" "z < 64" using 4 by (simp_all add: w x y z less_mult_imp_div_less)
    have b: "b = [oct (0xF0 + w), oct (0x80 + x), oct (0x80 + y), oct (0x80 + z)]"
      using assms 4 by (auto simp: utf8_char_def w x y z)
    have "second_ok (oct (0xF0 + w)) (oct (0x80 + x))"
      using lim 4 c by (auto simp: second_oct)
    moreover have "cont (oct (0x80 + y))" "cont (oct (0x80 + z))" using lim by (simp_all add: cont_oct)
    ultimately show ?thesis
      using lim by (simp add: b decode_replace.simps byte_lits oct_lt oct_le unat_oct c)
  qed
qed

lemma decode_encode: "encode s = Some b \<Longrightarrow> decode_replace b = s"
  by (induction s arbitrary: b) (auto simp: decode_utf8_char split: option.splits)

end
