(* ===== verification/PyStr.thy ===== *)
theory PyStr
  imports PyText
begin

text \<open>
  The methods of \<open>str\<close> the code calls, on code points: \<open>lower\<close>, \<open>strip\<close> (of white space
  and of given characters), \<open>startswith\<close>, \<open>partition\<close>, \<open>join\<close>, \<open>str(int)\<close> and \<open>int(str)\<close>.
\<close>

section \<open>Case\<close>

definition ascii_lower :: "nat \<Rightarrow> nat" where
  "ascii_lower c = (if 65 \<le> c \<and> c \<le> 90 then c + 32 else c)"

definition lower :: "interp \<Rightarrow> pystr \<Rightarrow> pystr" where
  "lower U s = (if ascii s then map ascii_lower s else ucd_lower U s)"

lemma ascii_lower_idem [simp]: "ascii_lower (ascii_lower c) = ascii_lower c"
  by (simp add: ascii_lower_def)

lemma ascii_lower_ascii [simp]: "c < 128 \<Longrightarrow> ascii_lower c < 128"
  by (simp add: ascii_lower_def)

lemma lower_ascii: "ascii s \<Longrightarrow> lower U s = map ascii_lower s"
  by (simp add: lower_def)

lemma ascii_map_lower: "ascii s \<Longrightarrow> ascii (map ascii_lower s)"
  by (auto simp: ascii_def)

lemma lower_idem_ascii: "ascii s \<Longrightarrow> lower U (lower U s) = lower U s"
  by (simp add: lower_ascii ascii_map_lower)

section \<open>White space and stripping\<close>

text \<open>The code points \<open>str.strip()\<close> removes.\<close>

definition py_space :: "nat \<Rightarrow> bool" where
  "py_space c \<longleftrightarrow>
     (9 \<le> c \<and> c \<le> 13) \<or> (28 \<le> c \<and> c \<le> 32) \<or> c = 0x85 \<or> c = 0xA0 \<or> c = 0x1680
     \<or> (0x2000 \<le> c \<and> c \<le> 0x200A) \<or> c = 0x2028 \<or> c = 0x2029 \<or> c = 0x202F \<or> c = 0x205F
     \<or> c = 0x3000"

definition strip_by :: "(nat \<Rightarrow> bool) \<Rightarrow> pystr \<Rightarrow> pystr" where
  "strip_by p s = rev (dropWhile p (rev (dropWhile p s)))"

definition strip :: "pystr \<Rightarrow> pystr" where
  "strip s = strip_by py_space s"

definition rstrip_by :: "(nat \<Rightarrow> bool) \<Rightarrow> pystr \<Rightarrow> pystr" where
  "rstrip_by p s = rev (dropWhile p (rev s))"

lemma set_strip_by: "set (strip_by p s) \<subseteq> set s"
  unfolding strip_by_def by (auto dest!: set_dropWhileD)

lemma set_strip: "set (strip s) \<subseteq> set s"
  by (simp add: strip_def set_strip_by)

lemma strip_by_id:
  assumes "s = [] \<or> \<not> p (hd s) \<and> \<not> p (last s)"
  shows "strip_by p s = s"
proof (cases s)
  case Nil
  then show ?thesis by (simp add: strip_by_def)
next
  case (Cons c t)
  with assms have c: "\<not> p c" and l: "\<not> p (last s)" by auto
  from Cons c have d: "dropWhile p s = s" by simp
  have "dropWhile p (rev s) = rev s"
  proof (cases "rev s")
    case (Cons x xs)
    then have "last s = x" by (metis last_rev list.sel(1) rev_rev_ident)
    with Cons l show ?thesis by simp
  qed simp
  with d show ?thesis by (simp add: strip_by_def)
qed

lemma rstrip_by_append_stop: "\<not> p c \<Longrightarrow> rstrip_by p (s @ [c]) = s @ [c]"
  by (simp add: rstrip_by_def)

lemma rstrip_by_append_drop: "p c \<Longrightarrow> rstrip_by p (s @ [c]) = rstrip_by p s"
  by (simp add: rstrip_by_def)

lemma rstrip_by_idem: "rstrip_by p (rstrip_by p s) = rstrip_by p s"
  by (simp add: rstrip_by_def)

section \<open>Prefixes, partition, join\<close>

definition startswith :: "pystr \<Rightarrow> pystr \<Rightarrow> bool" where
  "startswith s p \<longleftrightarrow> take (length p) s = p"

lemma startswith_append [simp]: "startswith (p @ s) p"
  by (simp add: startswith_def)

text \<open>\<open>s.partition(c)\<close> for a one-character separator: the head and the tail.\<close>

definition partition1 :: "nat \<Rightarrow> pystr \<Rightarrow> pystr \<times> pystr" where
  "partition1 c s =
     (let h = takeWhile (\<lambda>x. x \<noteq> c) s in (h, drop (Suc (length h)) s))"

lemma takeWhile_stop: "c \<notin> set h \<Longrightarrow> takeWhile (\<lambda>x. x \<noteq> c) (h @ c # t) = h"
  by (induction h) auto

lemma partition1_append: "c \<notin> set h \<Longrightarrow> partition1 c (h @ c # t) = (h, t)"
  by (simp add: partition1_def takeWhile_stop)

fun join :: "pystr \<Rightarrow> pystr list \<Rightarrow> pystr" where
  "join sep [] = []"
| "join sep [x] = x"
| "join sep (x # y # xs) = x @ sep @ join sep (y # xs)"

lemma join_Cons: "xs \<noteq> [] \<Longrightarrow> join sep (x # xs) = x @ sep @ join sep xs"
  by (cases xs) auto

lemma set_join: "set (join sep xs) \<subseteq> \<Union> (set ` set xs) \<union> set sep"
  by (induction sep xs rule: join.induct) auto

section \<open>Integers as text\<close>

fun dec_nat :: "nat \<Rightarrow> pystr" where
  "dec_nat n = (if n < 10 then [48 + n] else dec_nat (n div 10) @ [48 + n mod 10])"

declare dec_nat.simps [simp del]

lemma dec_nat_small [simp]: "n < 10 \<Longrightarrow> dec_nat n = [48 + n]"
  by (simp add: dec_nat.simps)

lemma dec_nat_step: "10 \<le> n \<Longrightarrow> dec_nat n = dec_nat (n div 10) @ [48 + n mod 10]"
  by (subst dec_nat.simps) simp

lemma dec_nat_numeral [py_eval]:
  "dec_nat (numeral k) =
     (if numeral k < (10 :: nat) then [48 + numeral k]
      else dec_nat (numeral k div 10) @ [48 + numeral k mod 10])"
  by (rule dec_nat.simps)

definition dec_int :: "int \<Rightarrow> pystr" where
  "dec_int i = (if i < 0 then 45 # dec_nat (nat (- i)) else dec_nat (nat i))"

text \<open>
  \<open>int(s)\<close> for a string: white space around an optional sign and decimal digits, single
  underscores between digits allowed, at most 4300 digits; \<open>None\<close> is \<open>ValueError\<close>. In an
  all-ASCII string white space is what C's \<open>isspace\<close> says (28 to 31 are not); in another
  string the spaces and decimal digits beyond ASCII count as their ASCII counterparts.
\<close>

definition c_space :: "nat \<Rightarrow> bool" where
  "c_space c \<longleftrightarrow> (9 \<le> c \<and> c \<le> 13) \<or> c = 32"

definition int_ascii :: "interp \<Rightarrow> nat \<Rightarrow> nat" where
  "int_ascii U c =
     (if c < 127 then c else if py_space c then 32
      else case ucd_decimal U c of Some d \<Rightarrow> 48 + d | None \<Rightarrow> 63)"

fun int_digits :: "bool \<Rightarrow> pystr \<Rightarrow> nat list option" where
  "int_digits p [] = (if p then Some [] else None)"
| "int_digits p (c # cs) =
     (if 48 \<le> c \<and> c \<le> 57 then
        (case int_digits True cs of None \<Rightarrow> None | Some ds \<Rightarrow> Some ((c - 48) # ds))
      else if c = 95 \<and> p then int_digits False cs
      else None)"

definition digits_value :: "nat list \<Rightarrow> nat" where
  "digits_value ds = foldl (\<lambda>a d. 10 * a + d) 0 ds"

definition int_unsigned :: "pystr \<Rightarrow> int option" where
  "int_unsigned s =
     (case int_digits False s of None \<Rightarrow> None
      | Some ds \<Rightarrow> if 4300 < length ds then None else Some (int (digits_value ds)))"

definition py_int :: "interp \<Rightarrow> pystr \<Rightarrow> int option" where
  "py_int U s =
     (let t = strip_by c_space (if ascii s then s else map (int_ascii U) s) in
      case t of [] \<Rightarrow> None
      | c # r \<Rightarrow> if c = 45 then map_option uminus (int_unsigned r)
                else if c = 43 then int_unsigned r
                else int_unsigned t)"

lemma int_digits_snoc:
  "int_digits p s = Some ds \<Longrightarrow> s \<noteq> [] \<Longrightarrow> d < 10 \<Longrightarrow> int_digits p (s @ [48 + d]) = Some (ds @ [d])"
proof (induction p s arbitrary: ds rule: int_digits.induct)
  case (2 p c cs)
  then show ?case by (cases "cs = []") (auto split: if_splits option.splits)
qed simp

lemma dec_nat_nonempty [simp]: "dec_nat n \<noteq> []"
  by (subst dec_nat.simps) simp

lemma int_digits_dec_nat: "\<exists>ds. int_digits False (dec_nat n) = Some ds \<and> digits_value ds = n
    \<and> length ds = length (dec_nat n)"
proof (induction n rule: dec_nat.induct)
  case (1 n)
  show ?case
  proof (cases "n < 10")
    case True
    then show ?thesis by (auto simp: digits_value_def)
  next
    case False
    then obtain ds where ds: "int_digits False (dec_nat (n div 10)) = Some ds"
      "digits_value ds = n div 10" "length ds = length (dec_nat (n div 10))"
      using "1.IH" by blast
    then have "int_digits False (dec_nat (n div 10) @ [48 + n mod 10]) = Some (ds @ [n mod 10])"
      by (intro int_digits_snoc) auto
    moreover have "digits_value (ds @ [n mod 10]) = n"
      using ds(2) by (simp add: digits_value_def)
    ultimately show ?thesis
      using False ds(3) by (simp add: dec_nat_step)
  qed
qed

lemma dec_nat_digits: "c \<in> set (dec_nat n) \<Longrightarrow> 48 \<le> c \<and> c \<le> 57"
proof (induction n rule: dec_nat.induct)
  case (1 n)
  then show ?case
  proof (cases "n < 10")
    case False
    with 1 show ?thesis by (auto simp: dec_nat_step)
  qed (use 1 in auto)
qed

lemma ascii_dec_nat: "ascii (dec_nat n)"
  using dec_nat_digits by (force simp: ascii_def)

text \<open>\<open>int(str(n)) == n\<close> while the text is within the interpreter's digit limit.\<close>

lemma py_int_dec_nat:
  assumes "length (dec_nat n) \<le> 4300"
  shows "py_int U (dec_nat n) = Some (int n)"
proof -
  obtain ds where ds: "int_digits False (dec_nat n) = Some ds" "digits_value ds = n"
    "length ds = length (dec_nat n)"
    using int_digits_dec_nat by blast
  have dig: "48 \<le> c \<and> c \<le> 57" if "c \<in> set (dec_nat n)" for c
    using that by (rule dec_nat_digits)
  have "\<not> c_space (hd (dec_nat n))" "\<not> c_space (last (dec_nat n))"
    using dig [of "hd (dec_nat n)"] dig [of "last (dec_nat n)"] by (auto simp: c_space_def)
  then have "strip_by c_space (dec_nat n) = dec_nat n"
    by (intro strip_by_id) simp
  moreover obtain c r where "dec_nat n = c # r" by (cases "dec_nat n") auto
  moreover from this dig [of c] have "c \<noteq> 45" "c \<noteq> 43" by auto
  moreover have "int_unsigned (dec_nat n) = Some (int n)"
    using ds assms by (simp add: int_unsigned_def)
  ultimately show ?thesis
    using ascii_dec_nat [of n] by (simp add: py_int_def)
qed

end
