(* ===== verification/PyJson.thy ===== *)
theory PyJson
  imports PyStr
begin

text \<open>
  The dynamically typed values a decoded JSON body holds, with the Python operations the
  code applies to them (\<open>.get\<close>, truth, iteration, \<open>[0]\<close>, \<open>str\<close>, \<open>repr\<close>), the exceptions
  these and the code itself raise, and \<open>json.dumps\<close> as \<open>send_message\<close> calls it. Each
  operation is defined on every value: on a value of the wrong type it raises what Python
  raises.
\<close>

section \<open>Values and exceptions\<close>

text \<open>
  A float is its \<open>repr\<close>, the only use the code has for one. An object is a dictionary:
  its keys are distinct and in order of appearance.
\<close>

datatype json =
    JNull
  | JBool bool
  | JInt int
  | JFloat pystr
  | JStr pystr
  | JArr "json list"
  | JObj "(pystr \<times> json) list"

text \<open>
  \<open>CloudflareEmailError(message, status, code, fatal)\<close> of \<open>cloudflare_api\<close>; the errors of
  Odoo the models raise; the built-in ones the code can meet.
\<close>

datatype py_exc =
    CloudflareEmailError pystr "int option" json bool
  | UserError pystr
  | ValidationError pystr
  | ValueError pystr
  | UnicodeEncodeError
  | TypeError
  | AttributeError
  | KeyError
  | IndexError
  | PgConcurrency
  | OtherError pystr

type_synonym 'a py = "(py_exc, 'a) res"

definition cf_error :: "pystr \<Rightarrow> py_exc" where
  "cf_error m = CloudflareEmailError m None JNull False"

fun cf_fatal :: "py_exc \<Rightarrow> bool" where
  "cf_fatal (CloudflareEmailError m s c f) = f"
| "cf_fatal _ = False"

fun cf_status :: "py_exc \<Rightarrow> int option" where
  "cf_status (CloudflareEmailError m s c f) = s"
| "cf_status _ = None"

fun cf_code :: "py_exc \<Rightarrow> json" where
  "cf_code (CloudflareEmailError m s c f) = c"
| "cf_code _ = JNull"

fun cf_message :: "py_exc \<Rightarrow> pystr" where
  "cf_message (CloudflareEmailError m s c f) = m"
| "cf_message (UserError m) = m"
| "cf_message (ValidationError m) = m"
| "cf_message (ValueError m) = m"
| "cf_message (OtherError m) = m"
| "cf_message _ = []"

fun is_cf_error :: "py_exc \<Rightarrow> bool" where
  "is_cf_error (CloudflareEmailError m s c f) = True"
| "is_cf_error _ = False"

text \<open>\<open>except ValueError\<close> also catches its subclass \<open>UnicodeEncodeError\<close>.\<close>

fun is_value_error :: "py_exc \<Rightarrow> bool" where
  "is_value_error (ValueError m) = True"
| "is_value_error UnicodeEncodeError = True"
| "is_value_error _ = False"

lemma cf_error_simps [simp]:
  "is_cf_error (cf_error m)" "cf_message (cf_error m) = m" "cf_status (cf_error m) = None"
  "cf_code (cf_error m) = JNull" "\<not> cf_fatal (cf_error m)" "\<not> is_value_error (cf_error m)"
  by (simp_all add: cf_error_def)

definition encode_py :: "pystr \<Rightarrow> bytes py" where
  "encode_py s = (case encode s of None \<Rightarrow> Inl UnicodeEncodeError | Some b \<Rightarrow> Inr b)"

lemma encode_py_Inr_iff [py_res]: "encode_py s = Inr b \<longleftrightarrow> encode s = Some b"
  by (simp add: encode_py_def split: option.splits)

lemma encode_py_Inl_iff [py_res]: "encode_py s = Inl e \<longleftrightarrow> encode s = None \<and> e = UnicodeEncodeError"
  by (auto simp: encode_py_def split: option.splits)

section \<open>Dynamic operations\<close>

fun truthy :: "json \<Rightarrow> bool" where
  "truthy JNull = False"
| "truthy (JBool b) = b"
| "truthy (JInt i) = (i \<noteq> 0)"
| "truthy (JFloat r) = (r \<noteq> lit ''0.0'' \<and> r \<noteq> lit ''-0.0'')"
| "truthy (JStr s) = (s \<noteq> [])"
| "truthy (JArr xs) = (xs \<noteq> [])"
| "truthy (JObj d) = (d \<noteq> [])"

definition py_or :: "json \<Rightarrow> json \<Rightarrow> json" where
  "py_or x y = (if truthy x then x else y)"

text \<open>\<open>x.get(k)\<close>: a missing key is \<open>None\<close>; a value that is no dictionary has no \<open>get\<close>.\<close>

fun jget :: "json \<Rightarrow> pystr \<Rightarrow> json py" where
  "jget (JObj d) k = Inr (case map_of d k of Some v \<Rightarrow> v | None \<Rightarrow> JNull)"
| "jget _ k = Inl AttributeError"

text \<open>\<open>for y in x\<close>: a string yields its characters, a dictionary its keys.\<close>

fun py_iter :: "json \<Rightarrow> json list py" where
  "py_iter (JArr xs) = Inr xs"
| "py_iter (JStr s) = Inr (map (\<lambda>c. JStr [c]) s)"
| "py_iter (JObj d) = Inr (map (\<lambda>(k, v). JStr k) d)"
| "py_iter _ = Inl TypeError"

text \<open>\<open>x[0]\<close>: a dictionary from JSON has no integer key.\<close>

fun py_index0 :: "json \<Rightarrow> json py" where
  "py_index0 (JArr xs) = (case xs of [] \<Rightarrow> Inl IndexError | x # _ \<Rightarrow> Inr x)"
| "py_index0 (JStr s) = (case s of [] \<Rightarrow> Inl IndexError | c # _ \<Rightarrow> Inr (JStr [c]))"
| "py_index0 (JObj d) = Inl KeyError"
| "py_index0 _ = Inl TypeError"

text \<open>\<open>x + y\<close>: lists and strings concatenate, numbers (\<open>True\<close> is 1) add, the rest raises.\<close>

fun num_value :: "json \<Rightarrow> int option" where
  "num_value (JInt i) = Some i"
| "num_value (JBool b) = Some (if b then 1 else 0)"
| "num_value _ = None"

fun num_text :: "json \<Rightarrow> pystr option" where
  "num_text (JFloat r) = Some r"
| "num_text j = map_option dec_int (num_value j)"

definition py_plus :: "interp \<Rightarrow> json \<Rightarrow> json \<Rightarrow> json py" where
  "py_plus U x y =
     (case (x, y) of
        (JArr xs, JArr ys) \<Rightarrow> Inr (JArr (xs @ ys))
      | (JStr s, JStr t) \<Rightarrow> Inr (JStr (s @ t))
      | _ \<Rightarrow>
          (case (num_value x, num_value y) of
             (Some i, Some j) \<Rightarrow> Inr (JInt (i + j))
           | _ \<Rightarrow>
               (case (num_text x, num_text y) of
                  (Some r, Some t) \<Rightarrow> Inr (JFloat (float_add U r t))
                | _ \<Rightarrow> Inl TypeError)))"

fun is_dict :: "json \<Rightarrow> bool" where
  "is_dict (JObj d) = True"
| "is_dict _ = False"

lemma jget_dict: "is_dict j \<Longrightarrow> \<exists>v. jget j k = Inr v"
  by (cases j) auto

lemma jget_Inr_dict: "jget j k = Inr v \<Longrightarrow> is_dict j"
  by (cases j) auto

lemma jget_Inl_iff [py_res]: "jget j k = Inl e \<longleftrightarrow> \<not> is_dict j \<and> e = AttributeError"
  by (cases j) auto

lemma py_iter_Inl: "py_iter j = Inl e \<Longrightarrow> e = TypeError"
  by (cases j) auto

lemma py_index0_Inl: "py_index0 j = Inl e \<Longrightarrow> e \<in> {IndexError, KeyError, TypeError}"
  by (cases j) (auto split: list.splits)

section \<open>Text of a value\<close>

definition hex_digit :: "nat \<Rightarrow> nat" where
  "hex_digit n = (if n < 10 then 48 + n else 87 + n)"

fun hex_pad :: "nat \<Rightarrow> nat \<Rightarrow> pystr" where
  "hex_pad 0 n = []"
| "hex_pad (Suc k) n = hex_pad k (n div 16) @ [hex_digit (n mod 16)]"

definition repr_char :: "interp \<Rightarrow> nat \<Rightarrow> nat \<Rightarrow> pystr" where
  "repr_char U q c =
     (if c = q \<or> c = 92 then [92, c]
      else if c = 9 then lit [CHR 0x5C, CHR ''t'']
      else if c = 10 then lit [CHR 0x5C, CHR ''n'']
      else if c = 13 then lit [CHR 0x5C, CHR ''r'']
      else if c < 32 \<or> c = 127 then [92, 120] @ hex_pad 2 c
      else if c < 127 \<or> ucd_printable U c then [c]
      else if c < 0x100 then [92, 120] @ hex_pad 2 c
      else if c < 0x10000 then [92, 117] @ hex_pad 4 c
      else [92, 85] @ hex_pad 8 c)"

definition repr_str :: "interp \<Rightarrow> pystr \<Rightarrow> pystr" where
  "repr_str U s =
     (let q = (if 39 \<in> set s \<and> 34 \<notin> set s then 34 else 39) in
      [q] @ concat (map (repr_char U q) s) @ [q])"

fun py_repr :: "interp \<Rightarrow> json \<Rightarrow> pystr"
  and py_repr_items :: "interp \<Rightarrow> json list \<Rightarrow> pystr list"
  and py_repr_fields :: "interp \<Rightarrow> (pystr \<times> json) list \<Rightarrow> pystr list" where
  "py_repr U JNull = lit ''None''"
| "py_repr U (JBool b) = (if b then lit ''True'' else lit ''False'')"
| "py_repr U (JInt i) = dec_int i"
| "py_repr U (JFloat r) = r"
| "py_repr U (JStr s) = repr_str U s"
| "py_repr U (JArr xs) = lit ''['' @ join (lit '', '') (py_repr_items U xs) @ lit '']''"
| "py_repr U (JObj d) = lit ''{'' @ join (lit '', '') (py_repr_fields U d) @ lit ''}''"
| "py_repr_items U [] = []"
| "py_repr_items U (x # xs) = py_repr U x # py_repr_items U xs"
| "py_repr_fields U [] = []"
| "py_repr_fields U ((k, v) # d) = (repr_str U k @ lit '': '' @ py_repr U v) # py_repr_fields U d"

fun py_str :: "interp \<Rightarrow> json \<Rightarrow> pystr" where
  "py_str U (JStr s) = s"
| "py_str U j = py_repr U j"

section \<open>json.dumps(..., ensure_ascii=False)\<close>

definition dumps_char :: "nat \<Rightarrow> pystr" where
  "dumps_char c =
     (if c = 34 \<or> c = 92 then [92, c]
      else if c = 10 then [92, 110] else if c = 13 then [92, 114] else if c = 9 then [92, 116]
      else if c = 12 then [92, 102] else if c = 8 then [92, 98]
      else if c < 32 then [92, 117] @ hex_pad 4 c
      else [c])"

definition dumps_str :: "pystr \<Rightarrow> pystr" where
  "dumps_str s = [34] @ concat (map dumps_char s) @ [34]"

fun dumps :: "json \<Rightarrow> pystr"
  and dumps_items :: "json list \<Rightarrow> pystr list"
  and dumps_fields :: "(pystr \<times> json) list \<Rightarrow> pystr list" where
  "dumps JNull = lit ''null''"
| "dumps (JBool b) = (if b then lit ''true'' else lit ''false'')"
| "dumps (JInt i) = dec_int i"
| "dumps (JFloat r) = r"
| "dumps (JStr s) = dumps_str s"
| "dumps (JArr xs) = lit ''['' @ join (lit '', '') (dumps_items xs) @ lit '']''"
| "dumps (JObj d) = lit ''{'' @ join (lit '', '') (dumps_fields d) @ lit ''}''"
| "dumps_items [] = []"
| "dumps_items (x # xs) = dumps x # dumps_items xs"
| "dumps_fields [] = []"
| "dumps_fields ((k, v) # d) = (dumps_str k @ lit '': '' @ dumps v) # dumps_fields d"

text \<open>
  No control character survives in an encoded string, so the request body is one line.
\<close>

lemma hex_digit_range: "n < 16 \<Longrightarrow> 48 \<le> hex_digit n \<and> hex_digit n \<le> 102"
  by (simp add: hex_digit_def)

lemma hex_pad_range: "c \<in> set (hex_pad k n) \<Longrightarrow> 48 \<le> c \<and> c \<le> 102"
proof (induction k n rule: hex_pad.induct)
  case (2 k n)
  then show ?case using hex_digit_range [of "n mod 16"] by auto
qed simp

lemma dumps_char_printable: "c \<in> set (dumps_char d) \<Longrightarrow> 32 \<le> c"
  using hex_pad_range [of c 4 d]
  by (auto simp: dumps_char_def simp del: hex_pad.simps split: if_splits)

lemma dumps_str_printable: "c \<in> set (dumps_str s) \<Longrightarrow> 32 \<le> c"
  using dumps_char_printable by (auto simp: dumps_str_def)

end
