(* ===== verification/Message.thy ===== *)
theory Message
  imports PyJson
begin

text \<open>
  What \<open>cloudflare_api\<close> is handed: the \<open>EmailMessage\<close> core prepared. Its header section is
  the list of its fields in order, each value as \<open>str(value)\<close>; its MIME tree is a
  datatype whose nodes carry what the standard library's accessors return for that part.
  Building and parsing messages is core's and the library's work and stays outside; the
  accessors the code calls on the result (\<open>message[name]\<close>, \<open>get_body\<close>) are modelled here.
\<close>

section \<open>Parts\<close>

record part_info =
  part_id :: nat \<comment> \<open>\<open>id(part)\<close>\<close>
  content_main :: pystr \<comment> \<open>\<open>get_content_type()\<close> before its slash\<close>
  content_sub :: pystr \<comment> \<open>\<open>get_content_type()\<close> after its slash\<close>
  disposition :: "pystr option" \<comment> \<open>\<open>get_content_disposition()\<close>\<close>
  filename :: "pystr option" \<comment> \<open>\<open>get_filename()\<close>\<close>
  content_id :: "pystr option" \<comment> \<open>\<open>part["Content-ID"]\<close>\<close>
  start_param :: "pystr option" \<comment> \<open>\<open>get_param("start")\<close>\<close>
  text_content :: "pystr py" \<comment> \<open>\<open>get_content()\<close>\<close>
  wire_bytes :: bytes \<comment> \<open>\<open>as_bytes()\<close>\<close>

text \<open>
  A part whose payload is a list (\<open>is_multipart()\<close>) holds its subparts; any other holds
  what \<open>get_payload(decode=True)\<close> returns.
\<close>

datatype mime = Leaf part_info "bytes option" | Multi part_info "mime list"

fun info :: "mime \<Rightarrow> part_info" where
  "info (Leaf i b) = i"
| "info (Multi i ps) = i"

fun is_multipart :: "mime \<Rightarrow> bool" where
  "is_multipart (Leaf i b) = False"
| "is_multipart (Multi i ps) = True"

definition content_type :: "part_info \<Rightarrow> pystr" where
  "content_type i = content_main i @ lit ''/'' @ content_sub i"

definition is_attachment :: "part_info \<Rightarrow> bool" where
  "is_attachment i \<longleftrightarrow> disposition i = Some (lit ''attachment'')"

record message =
  msg_headers :: "(pystr \<times> pystr) list"
  msg_root :: mime

section \<open>message[name]\<close>

text \<open>The first field whose name matches without regard to case.\<close>

definition header_get :: "interp \<Rightarrow> (pystr \<times> pystr) list \<Rightarrow> pystr \<Rightarrow> pystr option" where
  "header_get U hs name = map_option snd (find (\<lambda>(k, v). lower U k = lower U name) hs)"

text \<open>\<open>str(message[name] or "")\<close>\<close>

definition header_text :: "interp \<Rightarrow> (pystr \<times> pystr) list \<Rightarrow> pystr \<Rightarrow> pystr" where
  "header_text U hs name = (case header_get U hs name of None \<Rightarrow> [] | Some v \<Rightarrow> v)"

section \<open>message.get_body((subtype,))\<close>

text \<open>
  The library's depth-first search for the first \<open>text/<subtype>\<close> part that is no
  attachment, which enters multiparts only and, of a \<open>multipart/related\<close>, only its root
  part: the one \<open>start\<close> names, else the first. A \<open>multipart/related\<close> part whose payload
  is a non-empty string (it never had parts) makes the library take a character for a part.
\<close>

fun start_index :: "pystr \<Rightarrow> mime list \<Rightarrow> nat option" where
  "start_index s [] = None"
| "start_index s (p # ps) =
     (if content_id (info p) = Some s then Some 0 else map_option Suc (start_index s ps))"

definition root_index :: "part_info \<Rightarrow> mime list \<Rightarrow> nat" where
  "root_index i ps =
     (case start_param i of None \<Rightarrow> 0
      | Some s \<Rightarrow> if s = [] then 0 else (case start_index s ps of None \<Rightarrow> 0 | Some n \<Rightarrow> n))"

fun find_body :: "bool \<Rightarrow> pystr \<Rightarrow> mime \<Rightarrow> mime option py"
  and find_bodies :: "bool \<Rightarrow> pystr \<Rightarrow> mime list \<Rightarrow> mime option py"
  and find_body_at :: "bool \<Rightarrow> pystr \<Rightarrow> nat \<Rightarrow> mime list \<Rightarrow> mime option py" where
  "find_body rm sub (Leaf i b) =
     (if is_attachment i then Inr None
      else if content_main i = lit ''text'' then
        Inr (if content_sub i = sub then Some (Leaf i b) else None)
      else if content_main i \<noteq> lit ''multipart'' \<or> \<not> rm then Inr None
      else if content_sub i \<noteq> lit ''related'' then Inr None
      else if b = None \<or> b = Some [] then Inr None
      else Inl AttributeError)"
| "find_body rm sub (Multi i ps) =
     (if is_attachment i then Inr None
      else if content_main i = lit ''text'' then
        Inr (if content_sub i = sub then Some (Multi i ps) else None)
      else if content_main i \<noteq> lit ''multipart'' \<or> \<not> rm then Inr None
      else if content_sub i \<noteq> lit ''related'' then find_bodies rm sub ps
      else find_body_at rm sub (root_index i ps) ps)"
| "find_bodies rm sub [] = Inr None"
| "find_bodies rm sub (p # ps) =
     (case find_body rm sub p of
        Inl e \<Rightarrow> Inl e
      | Inr (Some q) \<Rightarrow> Inr (Some q)
      | Inr None \<Rightarrow> find_bodies rm sub ps)"
| "find_body_at rm sub n [] = Inr None"
| "find_body_at rm sub 0 (p # ps) = find_body rm sub p"
| "find_body_at rm sub (Suc n) (p # ps) = find_body_at rm sub n ps"

definition get_body :: "message \<Rightarrow> pystr \<Rightarrow> mime option py" where
  "get_body m sub = find_body (is_multipart (msg_root m)) sub (msg_root m)"

text \<open>The parts of a tree, each node with what is below it.\<close>

fun subparts :: "mime \<Rightarrow> mime list" where
  "subparts (Leaf i b) = [Leaf i b]"
| "subparts (Multi i ps) = Multi i ps # concat (map subparts ps)"

lemma self_subparts [simp]: "p \<in> set (subparts p)"
  by (cases p) auto

text \<open>A body found is a text part of the asked subtype and no attachment.\<close>

lemma find_body_found:
  "find_body rm sub p = Inr (Some q) \<Longrightarrow>
     q \<in> set (subparts p) \<and> content_main (info q) = lit ''text'' \<and> content_sub (info q) = sub
     \<and> \<not> is_attachment (info q)"
  "find_bodies rm sub ps = Inr (Some q) \<Longrightarrow>
     q \<in> set (concat (map subparts ps)) \<and> content_main (info q) = lit ''text''
     \<and> content_sub (info q) = sub \<and> \<not> is_attachment (info q)"
  "find_body_at rm sub n ps = Inr (Some q) \<Longrightarrow>
     q \<in> set (concat (map subparts ps)) \<and> content_main (info q) = lit ''text''
     \<and> content_sub (info q) = sub \<and> \<not> is_attachment (info q)"
proof (induction rm sub p and rm sub ps and rm sub n ps
    rule: find_body_find_bodies_find_body_at.induct)
qed (auto split: if_splits sum.splits option.splits simp del: lit_simps)

end
