(* ===== verification/Recipients.thy ===== *)
theory Recipients
  imports Message
begin

text \<open>
  The recipients of a send request: \<open>_address\<close> and \<open>_split_recipients\<close> of
  \<open>cloudflare_api.py\<close>. The envelope decides who receives the mail, the headers only
  distribute it over \<open>to\<close> and \<open>cc\<close>. \<open>email_split_tuples\<close> is Odoo's address parser, which
  is not in the repository: the argument \<open>split\<close>.
\<close>

section \<open>The code\<close>

definition MAX_RECIPIENTS :: nat where
  "MAX_RECIPIENTS = 50"

text \<open>The address object: its \<open>name\<close> key is there only for a non-empty display name.\<close>

record cf_address =
  ca_address :: pystr
  ca_name :: "pystr option"

definition address_of :: "pystr \<times> pystr \<Rightarrow> cf_address" where
  "address_of pair =
     (case pair of (name, address) \<Rightarrow>
        if name \<noteq> [] then \<lparr>ca_address = address, ca_name = Some name\<rparr>
        else \<lparr>ca_address = address, ca_name = None\<rparr>)"

definition address_json :: "cf_address \<Rightarrow> json" where
  "address_json a =
     JObj ((lit ''address'', JStr (ca_address a))
       # (case ca_name a of None \<Rightarrow> [] | Some n \<Rightarrow> [(lit ''name'', JStr n)]))"

text \<open>\<open>envelope.setdefault(address.lower(), address)\<close> over \<open>smtp_to_list\<close>\<close>

definition envelope_of :: "interp \<Rightarrow> pystr list \<Rightarrow> (pystr, pystr) dict" where
  "envelope_of U rcpts = foldl (\<lambda>d a. setdefault (lower U a) a d) [] rcpts"

text \<open>The inner function \<open>take\<close>: it threads the set \<open>seen\<close>.\<close>

fun take_pairs ::
  "interp \<Rightarrow> (pystr, pystr) dict \<Rightarrow> pystr set \<Rightarrow> (pystr \<times> pystr) list \<Rightarrow> cf_address list \<times> pystr set"
where
  "take_pairs U env seen [] = ([], seen)"
| "take_pairs U env seen ((name, address) # ps) =
     (let key = lower U address in
      if map_of env key \<noteq> None \<and> key \<notin> seen then
        (let (rs, seen') = take_pairs U env (insert key seen) ps
         in (address_of (name, address) # rs, seen'))
      else take_pairs U env seen ps)"

definition too_many_message :: "nat \<Rightarrow> pystr" where
  "too_many_message n =
     dec_nat n @ lit '' recipients; Cloudflare accepts at most '' @ dec_nat MAX_RECIPIENTS
     @ lit '' (To, Cc and Bcc combined) per message.''"

definition split_recipients ::
  "interp \<Rightarrow> (pystr \<Rightarrow> (pystr \<times> pystr) list) \<Rightarrow> (pystr \<times> pystr) list \<Rightarrow> pystr list
    \<Rightarrow> (cf_address list \<times> cf_address list \<times> cf_address list) py"
where
  "split_recipients U split hs rcpts =
     (let env = envelope_of U rcpts;
          (to1, seen1) = take_pairs U env {} (split (header_text U hs (lit ''To'')));
          (cc, seen2) = take_pairs U env seen1 (split (header_text U hs (lit ''Cc'')));
          bcc1 = map (\<lambda>(key, address). address_of ([], address))
                   (filter (\<lambda>(key, address). key \<notin> seen2) env);
          (to, bcc) = (if to1 = [] \<and> length bcc1 = 1 then (bcc1, []) else (to1, bcc1));
          n = length to + length cc + length bcc
      in if n = 0 then Inl (cf_error (lit ''No recipient left after envelope validation.''))
         else if MAX_RECIPIENTS < n then Inl (cf_error (too_many_message n))
         else Inr (to, cc, bcc))"

section \<open>The envelope\<close>

definition addr_key :: "interp \<Rightarrow> cf_address \<Rightarrow> pystr" where
  "addr_key U a = lower U (ca_address a)"

lemma address_of_address [simp]: "ca_address (address_of (n, a)) = a"
  by (simp add: address_of_def)

lemma addr_key_address_of [simp]: "addr_key U (address_of (n, a)) = lower U a"
  by (simp add: addr_key_def)

lemma envelope_fold:
  assumes "wf_dict d" and "\<And>k a. (k, a) \<in> set d \<Longrightarrow> lower U a = k"
    and "d' = foldl (\<lambda>d a. setdefault (lower U a) a d) d rcpts"
  shows "wf_dict d' \<and> (\<forall>(k, a) \<in> set d'. lower U a = k)
    \<and> set (keys d') = set (keys d) \<union> lower U ` set rcpts"
  using assms
proof (induction rcpts arbitrary: d)
  case Nil
  then show ?case by auto
next
  case (Cons a rcpts)
  have 1: "wf_dict (setdefault (lower U a) a d)" using Cons.prems(1) by auto
  have 2: "\<And>k b. (k, b) \<in> set (setdefault (lower U a) a d) \<Longrightarrow> lower U b = k"
    using Cons.prems(2) by (auto simp: setdefault_def split: if_splits)
  have 3: "d' = foldl (\<lambda>d a. setdefault (lower U a) a d) (setdefault (lower U a) a d) rcpts"
    using Cons.prems(3) by simp
  show ?case
    using Cons.IH [OF 1 2 3] by (simp add: set_keys_setdefault)
qed

lemma envelope_facts:
  "wf_dict (envelope_of U rcpts) \<and> (\<forall>(k, a) \<in> set (envelope_of U rcpts). lower U a = k)
    \<and> set (keys (envelope_of U rcpts)) = set (keys ([] :: (pystr, pystr) dict)) \<union> lower U ` set rcpts"
  by (rule envelope_fold [OF _ _ envelope_of_def]) simp_all

lemma envelope_wf: "wf_dict (envelope_of U rcpts)"
  using envelope_facts by blast

lemma envelope_key: "(k, a) \<in> set (envelope_of U rcpts) \<Longrightarrow> lower U a = k"
  using envelope_facts by blast

lemma envelope_keys: "set (keys (envelope_of U rcpts)) = lower U ` set rcpts"
  using envelope_facts [of U rcpts] by (simp add: keys_def)

lemma envelope_known: "map_of (envelope_of U rcpts) k \<noteq> None \<longleftrightarrow> k \<in> lower U ` set rcpts"
  by (simp only: map_of_None_keys not_not envelope_keys)

section \<open>One header\<close>

lemma take_pairs_spec:
  assumes "take_pairs U env seen ps = (rs, seen')"
  shows "seen' = seen \<union> set (map (addr_key U) rs) \<and> distinct (map (addr_key U) rs)
    \<and> set (map (addr_key U) rs) \<inter> seen = {}
    \<and> set (map (addr_key U) rs) = {k \<in> set (keys env) - seen. \<exists>(n, a) \<in> set ps. lower U a = k}"
  using assms
proof (induction ps arbitrary: seen rs)
  case Nil
  then show ?case by auto
next
  case (Cons p ps)
  obtain n a where p: "p = (n, a)" by (cases p)
  show ?case
  proof (cases "map_of env (lower U a) \<noteq> None \<and> lower U a \<notin> seen")
    case True
    obtain rs' where t: "take_pairs U env (insert (lower U a) seen) ps = (rs', seen')"
      and rs: "rs = address_of (n, a) # rs'"
      using Cons.prems True by (auto simp: p Let_def split: prod.splits)
    note IH = Cons.IH [OF t]
    have k: "lower U a \<in> set (keys env)" using True by (simp add: map_of_None_keys)
    show ?thesis using IH True k by (fastforce simp: rs p)
  next
    case False
    then have t: "take_pairs U env seen ps = (rs, seen')"
      using Cons.prems by (auto simp: p Let_def)
    show ?thesis using Cons.IH [OF t] False by (auto simp: p map_of_None_keys)
  qed
qed

section \<open>The split\<close>

text \<open>The three lists before the promotion of a lone hidden recipient.\<close>

definition raw_split ::
  "interp \<Rightarrow> (pystr \<Rightarrow> (pystr \<times> pystr) list) \<Rightarrow> (pystr \<times> pystr) list \<Rightarrow> pystr list
    \<Rightarrow> cf_address list \<times> cf_address list \<times> cf_address list"
where
  "raw_split U split hs rcpts =
     (let env = envelope_of U rcpts;
          (to, seen1) = take_pairs U env {} (split (header_text U hs (lit ''To'')));
          (cc, seen2) = take_pairs U env seen1 (split (header_text U hs (lit ''Cc'')))
      in (to, cc, map (\<lambda>(key, address). address_of ([], address))
                    (filter (\<lambda>(key, address). key \<notin> seen2) env)))"

definition promote ::
  "cf_address list \<times> cf_address list \<times> cf_address list
    \<Rightarrow> cf_address list \<times> cf_address list \<times> cf_address list"
where
  "promote r =
     (case r of (to, cc, bcc) \<Rightarrow> if to = [] \<and> length bcc = 1 then (bcc, cc, []) else (to, cc, bcc))"

definition all_of ::
  "cf_address list \<times> cf_address list \<times> cf_address list \<Rightarrow> cf_address list"
where
  "all_of r = (case r of (to, cc, bcc) \<Rightarrow> to @ cc @ bcc)"

definition header_keys ::
  "interp \<Rightarrow> (pystr \<Rightarrow> (pystr \<times> pystr) list) \<Rightarrow> (pystr \<times> pystr) list \<Rightarrow> pystr \<Rightarrow> pystr set"
where
  "header_keys U split hs name = (\<lambda>(n, a). lower U a) ` set (split (header_text U hs name))"

lemma split_recipients_raw:
  "split_recipients U split hs rcpts =
     (let r = promote (raw_split U split hs rcpts); n = length (all_of r)
      in if n = 0 then Inl (cf_error (lit ''No recipient left after envelope validation.''))
         else if MAX_RECIPIENTS < n then Inl (cf_error (too_many_message n))
         else Inr r)"
  by (simp add: split_recipients_def raw_split_def promote_def all_of_def Let_def add.assoc
      split: prod.splits)

lemma all_of_promote: "mset (all_of (promote r)) = mset (all_of r)"
  by (auto simp: all_of_def promote_def split: prod.splits)

lemma raw_split_spec:
  assumes "raw_split U split hs rcpts = (to, cc, bcc)"
  shows "mset (map (addr_key U) (to @ cc @ bcc)) = mset (keys (envelope_of U rcpts))"
    and "set (map (addr_key U) to) \<subseteq> header_keys U split hs (lit ''To'')"
    and "set (map (addr_key U) cc) \<subseteq> header_keys U split hs (lit ''Cc'')"
    and "set (map (addr_key U) bcc)
      \<inter> (header_keys U split hs (lit ''To'') \<union> header_keys U split hs (lit ''Cc'')) = {}"
proof -
  let ?env = "envelope_of U rcpts"
  obtain seen1 seen2 where
      t: "take_pairs U ?env {} (split (header_text U hs (lit ''To''))) = (to, seen1)"
    and c: "take_pairs U ?env seen1 (split (header_text U hs (lit ''Cc''))) = (cc, seen2)"
    and b: "bcc = map (\<lambda>(key, address). address_of ([], address))
                   (filter (\<lambda>(key, address). key \<notin> seen2) ?env)"
    using assms by (auto simp: raw_split_def Let_def split: prod.splits simp del: lit_simps)
  note T = take_pairs_spec [OF t] and C = take_pairs_spec [OF c]
  have bk: "map (addr_key U) bcc = filter (\<lambda>k. k \<notin> seen2) (keys ?env)"
    unfolding b keys_def filter_map map_map
    by (rule map_cong) (auto simp: case_prod_unfold comp_def envelope_key)
  have dist: "distinct (keys ?env)" using envelope_wf by (simp add: wf_dict_def)
  have sets: "set (map (addr_key U) (to @ cc @ bcc)) = set (keys ?env)"
    unfolding map_append set_append bk using T C by auto
  have "distinct (map (addr_key U) (to @ cc @ bcc))"
    unfolding map_append distinct_append bk set_append using T C dist by auto
  with dist sets show "mset (map (addr_key U) (to @ cc @ bcc)) = mset (keys ?env)"
    by (simp only: set_eq_iff_mset_eq_distinct)
  show "set (map (addr_key U) to) \<subseteq> header_keys U split hs (lit ''To'')"
    using T by (force simp: header_keys_def)
  show "set (map (addr_key U) cc) \<subseteq> header_keys U split hs (lit ''Cc'')"
    using C by (force simp: header_keys_def)
  show "set (map (addr_key U) bcc)
      \<inter> (header_keys U split hs (lit ''To'') \<union> header_keys U split hs (lit ''Cc'')) = {}"
    unfolding bk header_keys_def using T C by (auto simp del: lit_simps)
qed

lemma raw_split_exact:
  assumes "raw_split U split hs rcpts = (to, cc, bcc)"
  shows "set (map (addr_key U) to) = lower U ` set rcpts \<inter> header_keys U split hs (lit ''To'')"
    and "set (map (addr_key U) cc)
      = lower U ` set rcpts \<inter> header_keys U split hs (lit ''Cc'') - header_keys U split hs (lit ''To'')"
    and "set (map (addr_key U) bcc)
      = lower U ` set rcpts - (header_keys U split hs (lit ''To'') \<union> header_keys U split hs (lit ''Cc''))"
    and "distinct (map (addr_key U) bcc)"
proof -
  let ?env = "envelope_of U rcpts"
  let ?T = "header_keys U split hs (lit ''To'')" and ?C = "header_keys U split hs (lit ''Cc'')"
  obtain seen1 seen2 where
      t: "take_pairs U ?env {} (split (header_text U hs (lit ''To''))) = (to, seen1)"
    and c: "take_pairs U ?env seen1 (split (header_text U hs (lit ''Cc''))) = (cc, seen2)"
    using assms by (auto simp: raw_split_def Let_def split: prod.splits simp del: lit_simps)
  have hk: "{k \<in> A. \<exists>(n, a) \<in> set (split (header_text U hs h)). lower U a = k} = A \<inter> header_keys U split hs h" for A h
    unfolding header_keys_def by (auto simp del: lit_simps)
  have T: "set (map (addr_key U) to) = lower U ` set rcpts \<inter> ?T" "seen1 = set (map (addr_key U) to)"
    using take_pairs_spec [OF t] unfolding envelope_keys hk by blast+
  have C: "set (map (addr_key U) cc) = lower U ` set rcpts \<inter> ?C - ?T"
    using take_pairs_spec [OF c] unfolding envelope_keys hk T by blast
  note R = raw_split_spec(1) [OF assms]
  have all: "set (map (addr_key U) (to @ cc @ bcc)) = lower U ` set rcpts"
    using mset_eq_setD [OF R] by (simp only: envelope_keys)
  have "distinct (map (addr_key U) (to @ cc @ bcc))"
    using mset_eq_imp_distinct_iff [OF R] envelope_wf [of U rcpts] by (simp only: wf_dict_def)
  then have d: "distinct (map (addr_key U) bcc)"
    "set (map (addr_key U) bcc) \<inter> (set (map (addr_key U) to) \<union> set (map (addr_key U) cc)) = {}" by auto
  show "set (map (addr_key U) to) = lower U ` set rcpts \<inter> ?T" by (rule T)
  show "set (map (addr_key U) cc) = lower U ` set rcpts \<inter> ?C - ?T" by (rule C)
  show "set (map (addr_key U) bcc) = lower U ` set rcpts - (?T \<union> ?C)"
    using all d(2) unfolding map_append set_append T(1) C by blast
  show "distinct (map (addr_key U) bcc)" by (rule d)
qed

lemma mset_keys_envelope: "mset (keys (envelope_of U rcpts)) = mset_set (lower U ` set rcpts)"
  using envelope_wf [of U rcpts]
  by (simp add: wf_dict_def mset_set_set [symmetric] envelope_keys)

lemma split_total: "length (all_of (promote (raw_split U split hs rcpts))) = card (lower U ` set rcpts)"
proof -
  let ?r = "raw_split U split hs rcpts"
  have "length (all_of (promote ?r)) = size (mset (map (addr_key U) (all_of ?r)))"
    by (metis all_of_promote length_map size_mset)
  also have "\<dots> = size (mset (keys (envelope_of U rcpts)))"
    using raw_split_spec(1) by (cases ?r) (simp only: all_of_def prod.case)
  also have "\<dots> = card (lower U ` set rcpts)"
    by (simp add: mset_keys_envelope)
  finally show ?thesis .
qed

text \<open>The outcome depends on the number of distinct envelope addresses only.\<close>

lemma split_recipients_eq:
  "split_recipients U split hs rcpts =
     (if card (lower U ` set rcpts) = 0
      then Inl (cf_error (lit ''No recipient left after envelope validation.''))
      else if MAX_RECIPIENTS < card (lower U ` set rcpts)
      then Inl (cf_error (too_many_message (card (lower U ` set rcpts))))
      else Inr (promote (raw_split U split hs rcpts)))"
  unfolding split_recipients_raw Let_def split_total ..

lemma promote_keys:
  "mset (map (addr_key U) (all_of (promote (raw_split U split hs rcpts)))) = mset_set (lower U ` set rcpts)"
  using raw_split_spec(1) [of U split hs rcpts]
  by (cases "raw_split U split hs rcpts")
    (simp only: mset_map all_of_promote mset_keys_envelope [symmetric], simp add: all_of_def)

lemma split_recipients_Inr:
  assumes "split_recipients U split hs rcpts = Inr (to, cc, bcc)"
  shows "mset (map (addr_key U) (to @ cc @ bcc)) = mset_set (lower U ` set rcpts)"
    and "length (to @ cc @ bcc) = card (lower U ` set rcpts)"
    and "1 \<le> length (to @ cc @ bcc)" and "length (to @ cc @ bcc) \<le> MAX_RECIPIENTS"
proof -
  have r: "promote (raw_split U split hs rcpts) = (to, cc, bcc)"
    and c: "card (lower U ` set rcpts) \<noteq> 0" "card (lower U ` set rcpts) \<le> MAX_RECIPIENTS"
    using assms by (auto simp: split_recipients_eq simp del: lit_simps split: if_splits)
  show "mset (map (addr_key U) (to @ cc @ bcc)) = mset_set (lower U ` set rcpts)"
    using promote_keys [of U split hs rcpts] by (simp add: r all_of_def)
  show n: "length (to @ cc @ bcc) = card (lower U ` set rcpts)"
    using split_total [of U split hs rcpts] by (simp add: r all_of_def)
  show "1 \<le> length (to @ cc @ bcc)" "length (to @ cc @ bcc) \<le> MAX_RECIPIENTS"
    using c unfolding n by linarith+
qed

section \<open>Properties\<close>

text \<open>
  C1. \<open>_split_recipients\<close> sends to exactly the envelope: on success every envelope
  address, up to case, occurs exactly once over to, cc and bcc together, whatever the
  headers say, and there are between 1 and 50 of them; it raises exactly when the envelope
  has no address or more than 50 distinct ones, always a \<open>CloudflareEmailError\<close>.
\<close>

theorem split_recipients_partition:
  "case split_recipients U split hs rcpts of
     Inl e \<Rightarrow> is_cf_error e
       \<and> (card (lower U ` set rcpts) = 0 \<or> MAX_RECIPIENTS < card (lower U ` set rcpts))
   | Inr (to, cc, bcc) \<Rightarrow>
       mset (map (addr_key U) (to @ cc @ bcc)) = mset_set (lower U ` set rcpts)
       \<and> 1 \<le> length (to @ cc @ bcc) \<and> length (to @ cc @ bcc) = card (lower U ` set rcpts)
       \<and> card (lower U ` set rcpts) \<le> MAX_RECIPIENTS"
proof (cases "split_recipients U split hs rcpts")
  case (Inl e)
  then show ?thesis by (auto simp: split_recipients_eq simp del: lit_simps split: if_splits)
next
  case (Inr r)
  obtain to cc bcc where "r = (to, cc, bcc)" by (cases r)
  with split_recipients_Inr [of U split hs rcpts to cc bcc] Inr show ?thesis by simp
qed

text \<open>
  Who is shown to whom: every cc address comes from the Cc header and no address left in
  bcc occurs in either header; every to address comes from the To header, but for one case,
  the single hidden recipient that is promoted when To matched nobody, and then bcc is empty.
\<close>

theorem split_recipients_visibility:
  "case split_recipients U split hs rcpts of
     Inl e \<Rightarrow> True
   | Inr (to, cc, bcc) \<Rightarrow>
       set (map (addr_key U) cc) \<subseteq> header_keys U split hs (lit ''Cc'')
       \<and> set (map (addr_key U) bcc)
           \<inter> (header_keys U split hs (lit ''To'') \<union> header_keys U split hs (lit ''Cc'')) = {}
       \<and> (set (map (addr_key U) to) \<subseteq> header_keys U split hs (lit ''To'')
          \<or> (length to = 1 \<and> bcc = []))"
proof -
  obtain to cc bcc where r: "raw_split U split hs rcpts = (to, cc, bcc)"
    by (cases "raw_split U split hs rcpts")
  show ?thesis
    using raw_split_spec(2-4) [OF r]
    by (auto simp: split_recipients_raw r promote_def Let_def simp del: lit_simps)
qed

text \<open>
  C20. The split in full, and where it falls short: an envelope address goes to \<open>to\<close> when the To
  header names it, else to \<open>cc\<close> when the Cc header does, and is hidden otherwise; but a single
  hidden address becomes the visible \<open>to\<close> whenever To names nobody of the envelope, whether or
  not there are Cc recipients, who then see it.
\<close>

theorem recipients_split_exactly:
  "case split_recipients U split hs rcpts of
     Inl e \<Rightarrow> is_cf_error e
   | Inr (to, cc, bcc) \<Rightarrow>
       let env = lower U ` set rcpts;
           T = header_keys U split hs (lit ''To''); C = header_keys U split hs (lit ''Cc'');
           hidden = env - (T \<union> C)
       in set (map (addr_key U) cc) = env \<inter> C - T
          \<and> (if env \<inter> T = {} \<and> card hidden = 1 then set (map (addr_key U) to) = hidden \<and> bcc = []
             else set (map (addr_key U) to) = env \<inter> T \<and> set (map (addr_key U) bcc) = hidden)"
proof -
  let ?env = "lower U ` set rcpts"
  let ?T = "header_keys U split hs (lit ''To'')" and ?C = "header_keys U split hs (lit ''Cc'')"
  obtain to cc bcc where r: "raw_split U split hs rcpts = (to, cc, bcc)"
    by (cases "raw_split U split hs rcpts")
  note X = raw_split_exact [OF r]
  have n: "length bcc = card (?env - (?T \<union> ?C))"
    using distinct_card [OF X(4)] unfolding X(3) by simp
  have t: "to = [] \<longleftrightarrow> ?env \<inter> ?T = {}" using X(1) by (metis empty_set list.map_disc_iff set_empty)
  show ?thesis
    using X(1-3) n t by (auto simp: split_recipients_raw r promote_def Let_def simp del: lit_simps set_map)
qed

text \<open>
  The promotion does not look at cc: a message with a Cc recipient and one Bcc recipient
  and no To puts the Bcc recipient into \<open>to\<close>, where the Cc recipient sees the address.
\<close>

theorem lone_bcc_promoted_next_to_cc:
  "split_recipients U (\<lambda>s. if s = [] then [] else [([], s)])
      [(lit ''Cc'', lit ''b@x'')] [lit ''b@x'', lit ''c@x'']
   = Inr ([address_of ([], lit ''c@x'')], [address_of ([], lit ''b@x'')], [])"
  by (simp add: split_recipients_def envelope_of_def header_text_def header_get_def lower_def
      ascii_lower_def setdefault_def MAX_RECIPIENTS_def Let_def)

end
