(* ===== verification/Base64.thy ===== *)
theory Base64
  imports PyText
begin

text \<open>
  \<open>base64.b64encode(content).decode("ascii")\<close> and \<open>secrets.token_urlsafe\<close>'s encoding: the
  standard and the URL-safe alphabet. A decoder is the specification the encoder is
  compared with: nothing of an attachment is lost on the way into the JSON body.
\<close>

section \<open>Encoding\<close>

definition b64_char :: "nat \<Rightarrow> nat" where
  "b64_char n =
     (if n < 26 then 65 + n else if n < 52 then 71 + n else if n < 62 then n - 4
      else if n = 62 then 43 else 47)"

fun b64encode :: "bytes \<Rightarrow> pystr" where
  "b64encode [] = []"
| "b64encode [a] =
     [b64_char (unat a div 4), b64_char (unat a mod 4 * 16), 61, 61]"
| "b64encode [a, b] =
     [b64_char (unat a div 4), b64_char (unat a mod 4 * 16 + unat b div 16),
      b64_char (unat b mod 16 * 4), 61]"
| "b64encode (a # b # c # r) =
     [b64_char (unat a div 4), b64_char (unat a mod 4 * 16 + unat b div 16),
      b64_char (unat b mod 16 * 4 + unat c div 64), b64_char (unat c mod 64)] @ b64encode r"

definition url_char :: "nat \<Rightarrow> nat" where
  "url_char c = (if c = 43 then 45 else if c = 47 then 95 else c)"

text \<open>\<open>base64.urlsafe_b64encode(tok).rstrip(b"=").decode("ascii")\<close>\<close>

definition token_of_bytes :: "bytes \<Rightarrow> pystr" where
  "token_of_bytes b = map url_char (filter (\<lambda>c. c \<noteq> 61) (b64encode b))"

section \<open>Decoding, as specification\<close>

definition b64_value :: "nat \<Rightarrow> nat" where
  "b64_value c =
     (if 65 \<le> c \<and> c \<le> 90 then c - 65 else if 97 \<le> c \<and> c \<le> 122 then c - 71
      else if 48 \<le> c \<and> c \<le> 57 then c + 4 else if c = 43 then 62 else 63)"

fun b64decode :: "pystr \<Rightarrow> bytes" where
  "b64decode (p # q # r # s # t) =
     (let p' = b64_value p; q' = b64_value q; r' = b64_value r; s' = b64_value s in
      if r = 61 then [oct (p' * 4 + q' div 16)]
      else if s = 61 then [oct (p' * 4 + q' div 16), oct (q' mod 16 * 16 + r' div 4)]
      else [oct (p' * 4 + q' div 16), oct (q' mod 16 * 16 + r' div 4), oct (r' mod 4 * 64 + s')]
           @ b64decode t)"
| "b64decode _ = []"

lemma b64_value_char [simp]: "n < 64 \<Longrightarrow> b64_value (b64_char n) = n"
  by (auto simp: b64_value_def b64_char_def)

lemma b64_char_not_pad [simp]: "n < 64 \<Longrightarrow> b64_char n \<noteq> 61"
  by (auto simp: b64_char_def)

lemma unat_byte: "unat (a :: byte) < 256"
  by (rule less_le_trans [OF unsigned_less]) simp

lemma oct_unat [simp]: "oct (unat a) = a"
  by (simp add: oct_def)

lemma sextets:
  "unat (a :: byte) div 4 < 64" "unat a mod 4 * 16 < 64" "unat a mod 4 * 16 + unat (b :: byte) div 16 < 64"
  "unat b mod 16 * 4 < 64" "unat b mod 16 * 4 + unat (c :: byte) div 64 < 64" "unat c mod 64 < 64"
  using unat_byte [of a] unat_byte [of b] unat_byte [of c] by linarith+

lemma octet1: "x div 4 * 4 + (x mod 4 * 16 + y) div 16 = (x :: nat)" if "y < 16"
  using that by (simp add: div_add1_eq)

lemma octet2: "(x * 16 + y div 16) mod 16 * 16 + (y mod 16 * 4 + z) div 4 = (y :: nat)"
  if "y < 256" "z < 4"
  using that by (simp add: mod_add_eq div_add1_eq mult.commute)

lemma octet3: "(x * 4 + y div 64) mod 4 * 64 + y mod 64 = (y :: nat)" if "y < 256"
  using that by simp

lemma b64_roundtrip_aux: "b64decode (b64encode b) = b"
proof (induction b rule: b64encode.induct)
  case (2 a)
  have "unat a div 4 * 4 + (unat a mod 4 * 16) div 16 = unat a" by simp
  then show ?case by (simp add: Let_def sextets)
next
  case (3 a b)
  have b: "unat b div 16 < 16" using unat_byte [of b] by simp
  show ?case
    using octet1 [OF b] octet2 [OF unat_byte, of 0 "unat a mod 4" b]
    by (simp add: Let_def sextets)
next
  case (4 a b c r)
  have b: "unat b div 16 < 16" using unat_byte [of b] by simp
  have c: "unat c div 64 < 4" using unat_byte [of c] by simp
  then have c0: "unat c div 64 div 4 = 0" by simp
  show ?case
    using c0 octet1 [OF b] octet2 [OF unat_byte c] octet3 [OF unat_byte] "4.IH"
    by (simp add: Let_def sextets)
qed simp

lemma b64_char_alphabet:
  "n < 64 \<Longrightarrow> (65 \<le> b64_char n \<and> b64_char n \<le> 90) \<or> (97 \<le> b64_char n \<and> b64_char n \<le> 122)
     \<or> (48 \<le> b64_char n \<and> b64_char n \<le> 57) \<or> b64_char n = 43 \<or> b64_char n = 47"
  by (auto simp: b64_char_def)

definition b64_alphabet :: "nat \<Rightarrow> bool" where
  "b64_alphabet c \<longleftrightarrow> (65 \<le> c \<and> c \<le> 90) \<or> (97 \<le> c \<and> c \<le> 122) \<or> (48 \<le> c \<and> c \<le> 57) \<or> c = 43 \<or> c = 47
     \<or> c = 61"

lemma b64_char_in_alphabet [simp]: "n < 64 \<Longrightarrow> b64_alphabet (b64_char n)"
  using b64_char_alphabet [of n] by (auto simp: b64_alphabet_def)

lemma b64encode_alphabet: "c \<in> set (b64encode b) \<Longrightarrow> b64_alphabet c"
proof (induction b rule: b64encode.induct)
  case (2 a)
  then show ?case by (auto simp: sextets b64_alphabet_def [of 61])
next
  case (3 a b)
  then show ?case by (auto simp: sextets b64_alphabet_def [of 61])
next
  case (4 a b c r)
  then show ?case by (auto simp: sextets)
qed simp

section \<open>Tokens\<close>

text \<open>The characters of a URL segment that need no escaping.\<close>

definition url_safe :: "nat \<Rightarrow> bool" where
  "url_safe c \<longleftrightarrow> (65 \<le> c \<and> c \<le> 90) \<or> (97 \<le> c \<and> c \<le> 122) \<or> (48 \<le> c \<and> c \<le> 57) \<or> c = 45 \<or> c = 95"

lemma token_url_safe: "c \<in> set (token_of_bytes b) \<Longrightarrow> url_safe c"
  using b64encode_alphabet [of _ b]
  by (fastforce simp: token_of_bytes_def url_char_def url_safe_def b64_alphabet_def)

lemma length_token_aux:
  "length (filter (\<lambda>c. c \<noteq> 61) (b64encode b)) = (8 * length b + 5) div 6"
proof (induction b rule: b64encode.induct)
  case (2 a)
  then show ?case by (simp add: sextets)
next
  case (3 a b)
  then show ?case by (simp add: sextets)
next
  case (4 a b c r)
  then show ?case by (simp add: sextets)
qed simp

lemma length_token: "length (token_of_bytes b) = (8 * length b + 5) div 6"
  by (simp add: token_of_bytes_def length_token_aux)

end
