(* ===== verification/Content.thy ===== *)
theory Content
  imports Message Base64
begin

text \<open>
  The body and the attachments of a send request: \<open>_iter_leaves\<close>, \<open>_attachment\<close> and
  \<open>_extract_content\<close> of \<open>cloudflare_api.py\<close>. \<open>mimetypes.guess_extension\<close> reads the host's
  MIME type files: the argument \<open>guess\<close>.
\<close>

section \<open>The code\<close>

definition RFC822 :: pystr where
  "RFC822 = lit ''message/rfc822''"

fun iter_leaves :: "mime \<Rightarrow> mime list" where
  "iter_leaves (Leaf i b) = [Leaf i b]"
| "iter_leaves (Multi i ps) =
     (if content_type i = RFC822 then [Multi i ps] else concat (map iter_leaves ps))"

record cf_attachment =
  at_content :: pystr
  at_filename :: pystr
  at_type :: pystr
  at_disposition :: pystr
  at_content_id :: "pystr option"

definition attachment_json :: "cf_attachment \<Rightarrow> json" where
  "attachment_json a =
     JObj ([(lit ''content'', JStr (at_content a)), (lit ''filename'', JStr (at_filename a)),
            (lit ''type'', JStr (at_type a)), (lit ''disposition'', JStr (at_disposition a))]
       @ (case at_content_id a of None \<Rightarrow> [] | Some c \<Rightarrow> [(lit ''content_id'', JStr c)]))"

text \<open>
  \<open>part.get_payload()[0].as_bytes()\<close> of an attached message, else the decoded payload or
  \<open>b""\<close>. A \<open>message/rfc822\<close> part without an inner message object makes the subscript or
  \<open>as_bytes\<close> raise.
\<close>

fun part_content :: "mime \<Rightarrow> bytes py" where
  "part_content (Multi i ps) =
     (if content_type i = RFC822
      then (case ps of [] \<Rightarrow> Inl IndexError | q # _ \<Rightarrow> Inr (wire_bytes (info q)))
      else Inr [])"
| "part_content (Leaf i b) =
     (if content_type i = RFC822
      then (case b of None \<Rightarrow> Inl TypeError | Some [] \<Rightarrow> Inl IndexError
            | Some (_ # _) \<Rightarrow> Inl AttributeError)
      else (case b of None \<Rightarrow> Inr [] | Some c \<Rightarrow> Inr c))"

definition part_filename :: "(pystr \<Rightarrow> pystr option) \<Rightarrow> part_info \<Rightarrow> nat \<Rightarrow> pystr" where
  "part_filename guess i index =
     (case filename i of
        Some (c # s) \<Rightarrow> c # s
      | _ \<Rightarrow> lit ''attachment-'' @ dec_nat index
             @ (case guess (content_type i) of None \<Rightarrow> [] | Some e \<Rightarrow> e))"

definition part_content_id :: "part_info \<Rightarrow> pystr" where
  "part_content_id i = strip (case content_id i of None \<Rightarrow> [] | Some c \<Rightarrow> c)"

definition attachment :: "(pystr \<Rightarrow> pystr option) \<Rightarrow> mime \<Rightarrow> nat \<Rightarrow> cf_attachment py" where
  "attachment guess part index =
     bindR (part_content part) (\<lambda>content.
       let i = info part; cid = part_content_id i in
       Inr \<lparr>at_content = b64encode content,
            at_filename = part_filename guess i index,
            at_type = content_type i,
            at_disposition =
              (if cid \<noteq> [] \<or> disposition i = Some (lit ''inline'') then lit ''inline''
               else lit ''attachment''),
            at_content_id =
              (if cid \<noteq> [] then Some (strip_by (\<lambda>c. c = 60 \<or> c = 62) cid) else None)\<rparr>)"

text \<open>\<open>text if text and text.strip() else None\<close>\<close>

definition nonblank :: "pystr option \<Rightarrow> pystr option" where
  "nonblank t = (case t of None \<Rightarrow> None | Some s \<Rightarrow> if s \<noteq> [] \<and> strip s \<noteq> [] then Some s else None)"

fun collect ::
  "(pystr \<Rightarrow> pystr option) \<Rightarrow> nat set \<Rightarrow> nat \<Rightarrow> mime list \<Rightarrow> cf_attachment list py"
where
  "collect guess bodies n [] = Inr []"
| "collect guess bodies n (p # ps) =
     (if part_id (info p) \<notin> bodies then
        bindR (attachment guess p (n + 1)) (\<lambda>a.
          bindR (collect guess bodies (n + 1) ps) (\<lambda>as. Inr (a # as)))
      else collect guess bodies n ps)"

definition content_of :: "mime option \<Rightarrow> pystr option py" where
  "content_of p = (case p of None \<Rightarrow> Inr None | Some q \<Rightarrow> bindR (text_content (info q)) (\<lambda>t. Inr (Some t)))"

definition body_ids :: "mime option \<Rightarrow> mime option \<Rightarrow> nat set" where
  "body_ids h t = (case h of None \<Rightarrow> {} | Some p \<Rightarrow> {part_id (info p)})
                  \<union> (case t of None \<Rightarrow> {} | Some p \<Rightarrow> {part_id (info p)})"

definition extract_content ::
  "(pystr \<Rightarrow> pystr option) \<Rightarrow> message
    \<Rightarrow> (pystr option \<times> pystr option \<times> cf_attachment list) py"
where
  "extract_content guess m =
     bindR (get_body m (lit ''html'')) (\<lambda>html_part.
     bindR (get_body m (lit ''plain'')) (\<lambda>text_part.
     bindR (content_of text_part) (\<lambda>text.
     bindR (content_of html_part) (\<lambda>html.
     bindR (collect guess (body_ids html_part text_part) 0 (iter_leaves (msg_root m))) (\<lambda>as.
       Inr (nonblank text, nonblank html, as))))))"

section \<open>Leaves\<close>

lemma iter_leaves_subparts: "p \<in> set (iter_leaves t) \<Longrightarrow> p \<in> set (subparts t)"
  by (induction t rule: iter_leaves.induct) (auto split: if_splits)

lemma iter_leaves_leaf:
  "p \<in> set (iter_leaves t) \<Longrightarrow> \<not> is_multipart p \<or> content_type (info p) = RFC822"
  by (induction t rule: iter_leaves.induct) (auto split: if_splits)

section \<open>Attachments\<close>

text \<open>The non-body leaves with the number each gets.\<close>

definition numbered :: "nat set \<Rightarrow> mime \<Rightarrow> (nat \<times> mime) list" where
  "numbered bodies t = enumerate 1 (filter (\<lambda>p. part_id (info p) \<notin> bodies) (iter_leaves t))"

lemma collect_traverse:
  "collect guess bodies n ps =
     traverse (\<lambda>(i, p). attachment guess p i)
       (enumerate (Suc n) (filter (\<lambda>p. part_id (info p) \<notin> bodies) ps))"
  by (induction ps arbitrary: n) auto

lemma part_filename_nonempty [simp]:
  "part_filename guess i n \<noteq> []" "[] \<noteq> part_filename guess i n"
  by (simp_all add: part_filename_def split: option.splits list.splits)

lemma nonblank_Some: "nonblank t = Some s \<longleftrightarrow> t = Some s \<and> strip s \<noteq> []"
  by (auto simp: nonblank_def strip_def strip_by_def split: option.splits if_splits)

lemma attachment_Inr:
  assumes "attachment guess p n = Inr a"
  shows "part_content p = Inr (b64decode (at_content a)) \<and> at_type a = content_type (info p)
    \<and> at_filename a = part_filename guess (info p) n
    \<and> (at_content_id a \<noteq> None) = (part_content_id (info p) \<noteq> [])
    \<and> (at_disposition a = lit ''inline'') =
        (if at_content_id a = None then disposition (info p) = Some (lit ''inline'') else True)"
  using assms
  by (auto simp: attachment_def bindR_Inr_iff Let_def b64_roundtrip_aux lit_inject
      simp del: lit_simps split: if_splits)

section \<open>Properties\<close>

text \<open>
  C33. Nothing of the message is lost or duplicated: when \<open>_extract_content\<close> returns, the
  attachments are, in order, the leaves of the MIME tree other than the html and the text
  body that \<open>get_body\<close> chose, an attached message being one leaf; each carries exactly its
  part's bytes (decoding gives them back), its content type and a non-empty file name, and
  is inline with a content id exactly when the part has a non-blank Content-ID.
\<close>

theorem extract_content_attachments:
  "case extract_content guess m of
     Inl e \<Rightarrow> True
   | Inr (text, html, as) \<Rightarrow>
       \<exists>h t. get_body m (lit ''html'') = Inr h \<and> get_body m (lit ''plain'') = Inr t
         \<and> list_all2 (\<lambda>(n, p) a.
              part_content p = Inr (b64decode (at_content a))
              \<and> at_type a = content_type (info p) \<and> at_filename a = part_filename guess (info p) n
              \<and> at_filename a \<noteq> []
              \<and> (at_content_id a \<noteq> None \<longleftrightarrow> part_content_id (info p) \<noteq> [])
              \<and> (at_disposition a = lit ''inline'') =
                   (if at_content_id a = None then disposition (info p) = Some (lit ''inline'') else True))
            (numbered (body_ids h t) (msg_root m)) as"
proof (cases "extract_content guess m")
  case (Inr r)
  then obtain tx ht as h t where r: "r = (tx, ht, as)"
    and h: "get_body m (lit ''html'') = Inr h" and t: "get_body m (lit ''plain'') = Inr t"
    and c: "collect guess (body_ids h t) 0 (iter_leaves (msg_root m)) = Inr as"
    by (auto simp: extract_content_def bindR_Inr_iff simp del: lit_simps)
  have "list_all2 (\<lambda>(n, p) a. attachment guess p n = Inr a) (numbered (body_ids h t) (msg_root m)) as"
    using c by (simp add: collect_traverse traverse_Inr_iff numbered_def case_prod_unfold)
  then show ?thesis
    unfolding Inr r sum.case prod.case using h t
    by (intro exI conjI) (auto elim!: list_all2_mono dest!: attachment_Inr simp del: lit_simps)
qed simp

text \<open>
  A body that is sent is the chosen part's text and is not blank: white space alone,
  such as the newline \<open>set_content("")\<close> leaves, is reported as no body.
\<close>

theorem extract_content_bodies:
  "case extract_content guess m of
     Inl e \<Rightarrow> True
   | Inr (text, html, as) \<Rightarrow>
       (\<forall>s. text = Some s \<longleftrightarrow> strip s \<noteq> [] \<and>
          (\<exists>p. get_body m (lit ''plain'') = Inr (Some p) \<and> text_content (info p) = Inr s))
       \<and> (\<forall>s. html = Some s \<longleftrightarrow> strip s \<noteq> [] \<and>
          (\<exists>p. get_body m (lit ''html'') = Inr (Some p) \<and> text_content (info p) = Inr s))"
  by (auto simp: extract_content_def bindR_Inr_iff content_of_def nonblank_Some
      simp del: lit_simps split: sum.splits option.splits)

text \<open>
  Base64 as written into the request decodes to the bytes it encodes, and uses only the
  characters of its alphabet, so it needs no escaping in JSON.
\<close>

theorem b64_roundtrip:
  "b64decode (b64encode b) = b \<and> list_all b64_alphabet (b64encode b)
   \<and> dumps_str (b64encode b) = [34] @ b64encode b @ [34]"
proof -
  have "dumps_char c = [c]" if "b64_alphabet c" for c
    using that by (auto simp: dumps_char_def b64_alphabet_def)
  then have "map dumps_char (b64encode b) = map (\<lambda>c. [c]) (b64encode b)"
    using b64encode_alphabet by (intro map_cong) auto
  then have "concat (map dumps_char (b64encode b)) = concat (map (\<lambda>c. [c]) (b64encode b))"
    by (rule arg_cong)
  then have "concat (map dumps_char (b64encode b)) = b64encode b"
    by simp
  then show ?thesis
    by (simp add: b64_roundtrip_aux b64encode_alphabet dumps_str_def list_all_iff)
qed

end
