(* ===== verification/Headers.thy ===== *)
theory Headers
  imports Message "HOL-Library.While_Combinator"
begin

text \<open>
  The custom headers of a send request: the allow-list, \<open>_MSGID_RE\<close>, \<open>_header_size\<close> and
  \<open>_passthrough_headers\<close> of \<open>cloudflare_api.py\<close>. The loop that drops the oldest References
  entries is the recursive function \<open>trim\<close>; it ends because each round drops one entry, and
  the while loop as written has the same result.
\<close>

section \<open>The allow-list\<close>

definition ALLOWED_HEADERS :: "pystr list" where
  "ALLOWED_HEADERS =
     [lit ''In-Reply-To'', lit ''References'', lit ''Thread-Index'', lit ''Thread-Topic'',
      lit ''List-Unsubscribe'', lit ''List-Unsubscribe-Post'', lit ''List-Id'',
      lit ''List-Archive'', lit ''List-Help'', lit ''List-Owner'', lit ''List-Post'',
      lit ''List-Subscribe'', lit ''Precedence'',
      lit ''Auto-Submitted'',
      lit ''Content-Language'', lit ''Keywords'', lit ''Comments'', lit ''Importance'',
      lit ''Priority'', lit ''Sensitivity'', lit ''Organization'',
      lit ''Require-Recipient-Valid-Since'', lit ''Expires'', lit ''Reply-By'',
      lit ''Archived-At'']"

definition HEADER_ALLOWLIST :: "interp \<Rightarrow> pystr set" where
  "HEADER_ALLOWLIST U = lower U ` set ALLOWED_HEADERS"

definition CANONICAL_HEADER_NAMES :: "interp \<Rightarrow> (pystr, pystr) dict" where
  "CANONICAL_HEADER_NAMES U = map (\<lambda>name. (lower U name, name)) ALLOWED_HEADERS"

definition HEADER_ALLOWED_PREFIXES :: "pystr list" where
  "HEADER_ALLOWED_PREFIXES = [lit ''x-'']"

definition MAX_HEADER_BYTES :: nat where "MAX_HEADER_BYTES = 16 * 1024"
definition MAX_HEADER_COUNT :: nat where "MAX_HEADER_COUNT = 20"
definition MAX_HEADER_VALUE_BYTES :: nat where "MAX_HEADER_VALUE_BYTES = 2048"

definition REFERENCES :: pystr where
  "REFERENCES = lit ''References''"

section \<open>Message ids\<close>

text \<open>\<open>re.findall(r"<[^<>]+>", s)\<close>\<close>

definition not_angle :: "nat \<Rightarrow> bool" where
  "not_angle c \<longleftrightarrow> c \<noteq> 60 \<and> c \<noteq> 62"

function msgids :: "pystr \<Rightarrow> pystr list" where
  "msgids [] = []"
| "msgids (c # cs) =
     (if c = 60 then
        (let r = takeWhile not_angle cs; t = dropWhile not_angle cs in
         case t of
           d # u \<Rightarrow> if r \<noteq> [] \<and> d = 62 then (60 # r @ [62]) # msgids u else msgids cs
         | [] \<Rightarrow> msgids cs)
      else msgids cs)"
  by pat_completeness auto
termination
proof (relation "measure length")
  show "(u, c # cs) \<in> measure length"
    if "c = 60" "r = takeWhile not_angle cs" "t = dropWhile not_angle cs" "t = d # u" "r \<noteq> [] \<and> d = 62"
    for c :: nat and cs r t :: pystr and d u
  proof -
    have "length (d # u) \<le> length cs" using that(3,4) by (metis length_dropWhile_le)
    then show ?thesis by simp
  qed
qed auto

section \<open>The code\<close>

definition header_allowed :: "interp \<Rightarrow> pystr \<Rightarrow> bool" where
  "header_allowed U lname \<longleftrightarrow>
     lname \<in> HEADER_ALLOWLIST U \<or> (\<exists>p \<in> set HEADER_ALLOWED_PREFIXES. startswith lname p)"

text \<open>One round of the loop over \<open>message.items()\<close>.\<close>

definition merge_header ::
  "interp \<Rightarrow> (pystr, pystr) dict \<Rightarrow> pystr \<times> pystr \<Rightarrow> (pystr, pystr) dict"
where
  "merge_header U headers field =
     (case field of (name, v) \<Rightarrow>
       let lname = lower U name in
       if \<not> header_allowed U lname then headers
       else
         let val = strip v;
             key = (case map_of (CANONICAL_HEADER_NAMES U) lname of
                      Some k \<Rightarrow> k
                    | None \<Rightarrow> (case find (\<lambda>known. lower U known = lname) (keys headers) of
                                Some known \<Rightarrow> known | None \<Rightarrow> name))
         in case map_of headers key of
              None \<Rightarrow> AList.update key val headers
            | Some old \<Rightarrow>
                if val \<noteq> [] then AList.update key (old @ lit '', '' @ val) headers else headers)"

definition merge_headers :: "interp \<Rightarrow> (pystr \<times> pystr) list \<Rightarrow> (pystr, pystr) dict" where
  "merge_headers U hs = foldl (merge_header U) [] hs"

definition dict_get :: "(pystr, pystr) dict \<Rightarrow> pystr \<Rightarrow> pystr" where
  "dict_get d k = (case map_of d k of None \<Rightarrow> [] | Some v \<Rightarrow> v)"

definition field_size :: "pystr \<times> pystr \<Rightarrow> nat py" where
  "field_size f =
     (case f of (name, v) \<Rightarrow>
        bindR (encode_py name) (\<lambda>a. bindR (encode_py v) (\<lambda>b. Inr (length a + length b + 4))))"

definition header_size :: "(pystr, pystr) dict \<Rightarrow> nat py" where
  "header_size headers = bindR (traverse field_size headers) (\<lambda>ns. Inr (sum_list ns))"

definition references_oversized :: "(pystr, pystr) dict \<Rightarrow> bool py" where
  "references_oversized headers =
     bindR (encode_py (dict_get headers REFERENCES)) (\<lambda>b.
       if MAX_HEADER_VALUE_BYTES < length b then Inr True
       else bindR (header_size headers) (\<lambda>n. Inr (MAX_HEADER_BYTES < n)))"

definition own_id :: "interp \<Rightarrow> (pystr \<times> pystr) list \<Rightarrow> pystr" where
  "own_id U hs = strip (header_text U hs (lit ''Message-Id''))"

text \<open>The References entries with the own id appended when it is not already there.\<close>

definition reference_ids :: "interp \<Rightarrow> (pystr \<times> pystr) list \<Rightarrow> pystr list" where
  "reference_ids U hs =
     (let references = msgids (dict_get (merge_headers U hs) REFERENCES); own = own_id U hs in
      if own \<noteq> [] \<and> own \<notin> set references then references @ [own] else references)"

definition set_references :: "pystr list \<Rightarrow> (pystr, pystr) dict \<Rightarrow> (pystr, pystr) dict" where
  "set_references refs headers = AList.update REFERENCES (join [32] refs) headers"

text \<open>\<open>while references_oversized() and len(references) > 1\<close>\<close>

function trim ::
  "(pystr, pystr) dict \<Rightarrow> pystr list \<Rightarrow> ((pystr, pystr) dict \<times> pystr list) py"
where
  "trim headers refs =
     bindR (references_oversized headers) (\<lambda>big.
       if big \<and> 1 < length refs then trim (set_references (tl refs) headers) (tl refs)
       else Inr (headers, refs))"
  by pat_completeness auto
termination
  by (relation "measure (\<lambda>(headers, refs). length refs)") auto

declare trim.simps [simp del]

text \<open>
  The loop as it is written: the test may raise, the body drops the oldest id and writes the
  header again.
\<close>

type_synonym trim_state = "((pystr, pystr) dict \<times> pystr list) py"

definition trim_test :: "trim_state \<Rightarrow> bool" where
  "trim_test st =
     (case st of Inl e \<Rightarrow> False
      | Inr (headers, refs) \<Rightarrow>
          (case references_oversized headers of Inl e \<Rightarrow> True | Inr big \<Rightarrow> big \<and> 1 < length refs))"

definition trim_body :: "trim_state \<Rightarrow> trim_state" where
  "trim_body st =
     bindR st (\<lambda>(headers, refs). bindR (references_oversized headers) (\<lambda>_.
       Inr (set_references (tl refs) headers, tl refs)))"

definition value_too_long :: "pystr \<times> pystr \<Rightarrow> bool py" where
  "value_too_long f = bindR (encode_py (snd f)) (\<lambda>b. Inr (MAX_HEADER_VALUE_BYTES < length b))"

definition too_long_names :: "(pystr, pystr) dict \<Rightarrow> pystr list py" where
  "too_long_names headers =
     bindR (traverse value_too_long headers) (\<lambda>bs.
       Inr (map (fst \<circ> snd) (filter fst (zip bs headers))))"

definition headers_exceed_message :: "pystr list \<Rightarrow> pystr" where
  "headers_exceed_message too_long =
     lit ''Headers exceed Cloudflare'' @ [39] @ lit ''s limits ('' @ dec_nat MAX_HEADER_BYTES
     @ lit '' bytes in total, '' @ dec_nat MAX_HEADER_VALUE_BYTES
     @ lit '' bytes per value) even after trimming References; too long: ''
     @ (let names = join (lit '', '') too_long in if names \<noteq> [] then names else lit ''none'')
     @ lit ''.''"

definition too_many_headers_message :: "nat \<Rightarrow> pystr" where
  "too_many_headers_message n =
     dec_nat n @ lit '' custom headers; Cloudflare accepts at most '' @ dec_nat MAX_HEADER_COUNT
     @ lit ''.''"

definition check_headers :: "(pystr, pystr) dict \<Rightarrow> (pystr, pystr) dict py" where
  "check_headers headers =
     bindR (too_long_names headers) (\<lambda>too_long.
     bindR (if too_long \<noteq> [] then Inr True
            else bindR (header_size headers) (\<lambda>n. Inr (MAX_HEADER_BYTES < n))) (\<lambda>bad.
       if bad then Inl (cf_error (headers_exceed_message too_long))
       else if MAX_HEADER_COUNT < length headers
       then Inl (cf_error (too_many_headers_message (length headers)))
       else Inr headers))"

definition passthrough_headers ::
  "interp \<Rightarrow> (pystr \<times> pystr) list \<Rightarrow> (pystr, pystr) dict py"
where
  "passthrough_headers U hs =
     (let references = reference_ids U hs;
          headers = (if references \<noteq> [] then set_references references (merge_headers U hs)
                     else merge_headers U hs)
      in bindR (trim headers references) (\<lambda>(headers', _). check_headers headers'))"

section \<open>Names\<close>

text \<open>
  What the merge keeps of the names it has collected: each is allowed, spelled as the
  allow-list spells it, and no two differ in case only.
\<close>

definition good_name :: "interp \<Rightarrow> pystr \<Rightarrow> bool" where
  "good_name U k \<longleftrightarrow>
     header_allowed U (lower U k)
     \<and> map_of (CANONICAL_HEADER_NAMES U) (lower U k) \<in> {None, Some k}"

definition names_ok :: "interp \<Rightarrow> pystr list \<Rightarrow> bool" where
  "names_ok U ks \<longleftrightarrow> distinct (map (lower U) ks) \<and> (\<forall>k \<in> set ks. good_name U k)"

lemma names_ok_snoc:
  "names_ok U (ks @ [k]) \<longleftrightarrow> names_ok U ks \<and> good_name U k \<and> lower U k \<notin> lower U ` set ks"
  by (auto simp: names_ok_def)

lemma canonical_Some:
  "map_of (CANONICAL_HEADER_NAMES U) l = Some k \<Longrightarrow> lower U k = l \<and> k \<in> set ALLOWED_HEADERS"
  by (auto simp: CANONICAL_HEADER_NAMES_def dest!: map_of_SomeD)

lemma canonical_references [simp]:
  "map_of (CANONICAL_HEADER_NAMES U) (lower U REFERENCES) = Some REFERENCES"
proof -
  obtain rest where r: "ALLOWED_HEADERS = lit ''In-Reply-To'' # REFERENCES # rest"
    unfolding ALLOWED_HEADERS_def REFERENCES_def by blast
  have "lower U REFERENCES \<noteq> lower U (lit ''In-Reply-To'')"
    by (simp add: REFERENCES_def lower_def ascii_lower_def)
  then show ?thesis
    unfolding CANONICAL_HEADER_NAMES_def r by (simp del: lit_simps)
qed

lemma references_allowed [simp]: "header_allowed U (lower U REFERENCES)"
  using canonical_Some [OF canonical_references, of U]
  by (auto simp: header_allowed_def HEADER_ALLOWLIST_def)

lemma names_ok_Nil [simp]: "names_ok U []"
  by (simp add: names_ok_def)

lemma names_ok_canonical:
  assumes "names_ok U ks" and "map_of (CANONICAL_HEADER_NAMES U) (lower U k) = Some k"
    and "header_allowed U (lower U k)"
  shows "names_ok U (if k \<in> set ks then ks else ks @ [k])"
proof (cases "k \<in> set ks")
  case False
  have "lower U k' \<noteq> lower U k" if "k' \<in> set ks" for k'
  proof
    assume "lower U k' = lower U k"
    moreover have "map_of (CANONICAL_HEADER_NAMES U) (lower U k') \<in> {None, Some k'}"
      using assms(1) that unfolding names_ok_def good_name_def by blast
    ultimately have "Some k \<in> {None, Some k'}" by (simp only: assms(2))
    with that False show False by auto
  qed
  then have "lower U k \<notin> lower U ` set ks" by fastforce
  with False assms show ?thesis by (simp add: names_ok_snoc good_name_def)
qed (use assms in simp)

lemma names_ok_fresh:
  assumes "names_ok U ks" and "map_of (CANONICAL_HEADER_NAMES U) (lower U k) = None"
    and "header_allowed U (lower U k)" and "lower U k \<notin> lower U ` set ks"
  shows "names_ok U (if k \<in> set ks then ks else ks @ [k])"
  using assms by (simp add: names_ok_snoc good_name_def)

lemma names_ok_merge_header:
  assumes "names_ok U (keys d)"
  shows "names_ok U (keys (merge_header U d f))"
proof -
  obtain name v where f: "f = (name, v)" by (cases f)
  let ?l = "lower U name"
  define key where "key = (case map_of (CANONICAL_HEADER_NAMES U) ?l of Some k \<Rightarrow> k
    | None \<Rightarrow> (case find (\<lambda>known. lower U known = ?l) (keys d) of Some known \<Rightarrow> known | None \<Rightarrow> name))"
  have res: "keys (merge_header U d f) \<in> {keys d, if key \<in> set (keys d) then keys d else keys d @ [key]}"
    by (auto simp: merge_header_def f Let_def key_def [symmetric] keys_update split: option.splits)
  show ?thesis
  proof (cases "header_allowed U ?l")
    case True
    have "names_ok U (if key \<in> set (keys d) then keys d else keys d @ [key])"
    proof (cases "map_of (CANONICAL_HEADER_NAMES U) ?l")
      case (Some k)
      then have "key = k" by (simp add: key_def)
      moreover have "names_ok U (if k \<in> set (keys d) then keys d else keys d @ [k])"
        by (rule names_ok_canonical [OF assms]) (use canonical_Some [OF Some] Some True in auto)
      ultimately show ?thesis by (simp only:)
    next
      case None
      show ?thesis
      proof (cases "find (\<lambda>known. lower U known = ?l) (keys d)")
        case (Some k)
        then have "key = k" using None by (simp add: key_def)
        moreover have "k \<in> set (keys d)" using Some by (auto simp: find_Some_iff)
        ultimately have "key \<in> set (keys d)" by (simp only:)
        with assms show ?thesis by simp
      next
        case n: None
        then have "key = name" using None by (simp add: key_def)
        moreover have "names_ok U (if name \<in> set (keys d) then keys d else keys d @ [name])"
          by (rule names_ok_fresh [OF assms None True]) (use n in \<open>auto simp: find_None_iff\<close>)
        ultimately show ?thesis by (simp only:)
      qed
    qed
    with res assms show ?thesis by auto
  qed (simp add: merge_header_def f Let_def assms)
qed

lemma names_ok_merge: "names_ok U (keys d) \<Longrightarrow> names_ok U (keys (foldl (merge_header U) d hs))"
  by (induction hs arbitrary: d) (auto intro: names_ok_merge_header)

lemma names_ok_set_references: "names_ok U (keys d) \<Longrightarrow> names_ok U (keys (set_references refs d))"
  using names_ok_canonical [of U "keys d" REFERENCES] by (simp add: set_references_def keys_update)

section \<open>Trimming\<close>

lemma update_known: "map_of d k = Some v \<Longrightarrow> AList.update k v d = d"
  by (induction d) (auto split: if_splits)

lemma set_references_twice [simp]:
  "set_references refs (set_references refs' d) = set_references refs d"
  by (induction d) (auto simp: set_references_def)

lemma dict_get_references [simp]: "dict_get (set_references refs d) REFERENCES = join [32] refs"
  by (simp add: dict_get_def set_references_def map_of_update)

text \<open>
  What the loop returns, stated against the headers without their References: a number of
  dropped entries such that dropping fewer is too big, and dropping these is small enough or
  leaves a single entry.
\<close>

lemma trim_spec:
  assumes "trim (set_references refs d) refs = Inr (d', refs')"
  shows "\<exists>k. k \<le> length refs - 1 \<and> refs' = drop k refs \<and> d' = set_references refs' d
    \<and> (\<forall>j < k. references_oversized (set_references (drop j refs) d) = Inr True)
    \<and> (references_oversized d' = Inr False \<or> length refs' \<le> 1)"
  using assms
proof (induction "length refs" arbitrary: refs rule: less_induct)
  case less
  let ?h = "set_references refs d"
  obtain big where big: "references_oversized ?h = Inr big"
    using less.prems by (subst (asm) trim.simps) (auto simp: bindR_Inr_iff)
  show ?case
  proof (cases "big \<and> 1 < length refs")
    case True
    then have "trim (set_references (tl refs) d) (tl refs) = Inr (d', refs')"
      using less.prems big by (subst (asm) trim.simps) simp
    moreover have "length (tl refs) < length refs" using True by (cases refs) auto
    ultimately obtain k where k: "k \<le> length (tl refs) - 1" "refs' = drop k (tl refs)"
        "d' = set_references refs' d"
        "\<forall>j < k. references_oversized (set_references (drop j (tl refs)) d) = Inr True"
        "references_oversized d' = Inr False \<or> length refs' \<le> 1"
      using less.hyps [of "tl refs"] by blast
    have "references_oversized (set_references (drop j refs) d) = Inr True" if "j < Suc k" for j
      using that k(4) big True by (cases j) (auto simp: drop_Suc)
    with k True show ?thesis
      by (intro exI [of _ "Suc k"]) (auto simp: drop_Suc)
  next
    case False
    then have "d' = ?h \<and> refs' = refs"
      using less.prems big by (subst (asm) trim.simps) auto
    then show ?thesis
      using False big by (intro exI [of _ 0]) auto
  qed
qed

lemma trim_no_references: "trim d [] = Inr (d', refs') \<Longrightarrow> d' = d \<and> refs' = []"
  by (subst (asm) trim.simps) (auto simp: bindR_Inr_iff)

text \<open>The limits \<open>check_headers\<close> enforces.\<close>

definition within_limits :: "(pystr, pystr) dict \<Rightarrow> bool" where
  "within_limits d \<longleftrightarrow>
     (\<forall>(n, v) \<in> set d. \<exists>b. encode v = Some b \<and> length b \<le> MAX_HEADER_VALUE_BYTES)
     \<and> (\<exists>n. header_size d = Inr n \<and> n \<le> MAX_HEADER_BYTES) \<and> length d \<le> MAX_HEADER_COUNT"

lemma too_long_none:
  "too_long_names d = Inr [] \<Longrightarrow>
     \<forall>(n, v) \<in> set d. \<exists>b. encode v = Some b \<and> length b \<le> MAX_HEADER_VALUE_BYTES"
proof (induction d)
  case (Cons f d)
  obtain n v where f: "f = (n, v)" by (cases f)
  from Cons.prems obtain b bs where b: "value_too_long f = Inr b" and bs: "traverse value_too_long d = Inr bs"
      and none: "\<not> b" "filter fst (zip bs d) = []"
    by (auto simp: too_long_names_def bindR_Inr_iff split: if_splits)
  have "too_long_names d = Inr []" using bs none by (simp add: too_long_names_def)
  then show ?case
    using Cons.IH b none by (auto simp: f value_too_long_def bindR_Inr_iff encode_py_Inr_iff)
qed simp

lemma check_headers_ok: "check_headers d = Inr d' \<Longrightarrow> d' = d \<and> within_limits d"
  using too_long_none [of d]
  by (auto simp: check_headers_def bindR_Inr_iff within_limits_def split: if_splits)

section \<open>Message ids in References\<close>

definition is_msgid :: "pystr \<Rightarrow> bool" where
  "is_msgid s \<longleftrightarrow> (\<exists>b. s = 60 # b @ [62] \<and> b \<noteq> [] \<and> (\<forall>c \<in> set b. not_angle c))"

lemma not_angle_simps [simp]: "\<not> not_angle 60" "\<not> not_angle 62"
  by (simp_all add: not_angle_def)

lemma takeWhile_not_angle:
  "\<forall>c \<in> set b. not_angle c \<Longrightarrow> takeWhile not_angle (b @ 62 # t) = b"
  "\<forall>c \<in> set b. not_angle c \<Longrightarrow> dropWhile not_angle (b @ 62 # t) = 62 # t"
  by (induction b) auto

lemma msgids_msgid: "is_msgid s \<Longrightarrow> msgids (s @ t) = s # msgids t"
  by (auto simp: is_msgid_def takeWhile_not_angle Let_def)

lemma msgids_space: "msgids (32 # t) = msgids t"
  by simp

declare msgids.simps(2) [simp del]

text \<open>Joining message ids with spaces and scanning the result gives them back.\<close>

lemma msgids_join: "\<forall>s \<in> set ids. is_msgid s \<Longrightarrow> msgids (join [32] ids) = ids"
proof (induction ids)
  case (Cons s ids)
  show ?case
  proof (cases "ids = []")
    case True
    with Cons.prems show ?thesis using msgids_msgid [of s "[]"] by simp
  next
    case False
    with Cons show ?thesis by (simp add: join_Cons msgids_msgid msgids_space)
  qed
qed simp

lemma msgids_valid: "s \<in> set (msgids t) \<Longrightarrow> is_msgid s"
proof (induction t rule: msgids.induct)
  case (2 c cs)
  then show ?case
    by (auto simp: msgids.simps(2) Let_def is_msgid_def split: if_splits list.splits
        dest: set_takeWhileD)
qed simp

section \<open>Errors\<close>

definition header_error :: "py_exc \<Rightarrow> bool" where
  "header_error e \<longleftrightarrow> is_cf_error e \<or> e = UnicodeEncodeError"

lemma header_size_error: "header_size d = Inl e \<Longrightarrow> e = UnicodeEncodeError"
  by (auto simp: header_size_def bindR_Inl_iff field_size_def encode_py_Inl_iff dest!: traverse_Inl)

lemma oversized_error: "references_oversized d = Inl e \<Longrightarrow> e = UnicodeEncodeError"
  by (auto simp: references_oversized_def bindR_Inl_iff encode_py_Inl_iff
      dest: header_size_error split: if_splits)

lemma trim_error: "trim d refs = Inl e \<Longrightarrow> e = UnicodeEncodeError"
proof (induction d refs rule: trim.induct)
  case (1 d refs)
  from "1.prems" have "references_oversized d = Inl e
      \<or> (\<exists>big. references_oversized d = Inr big \<and> big \<and> 1 < length refs
           \<and> trim (set_references (tl refs) d) (tl refs) = Inl e)"
    unfolding trim.simps [of d refs] by (auto simp: bindR_Inl_iff split: if_splits)
  with "1.IH" oversized_error show ?case by blast
qed

lemma too_long_error: "too_long_names d = Inl e \<Longrightarrow> e = UnicodeEncodeError"
  by (auto simp: too_long_names_def value_too_long_def bindR_Inl_iff encode_py_Inl_iff
      dest!: traverse_Inl)

lemma header_error_simps [simp]: "header_error (cf_error m)" "header_error UnicodeEncodeError"
  by (simp_all add: header_error_def)

lemma check_headers_error:
  assumes "check_headers d = Inl e"
  shows "header_error e"
proof (cases "too_long_names d")
  case (Inl e')
  with assms have "e = e'" by (simp add: check_headers_def)
  with too_long_error [OF Inl] show ?thesis by simp
next
  case (Inr names)
  show ?thesis
  proof (cases "header_size d")
    case (Inl e')
    with assms Inr header_size_error [OF Inl] show ?thesis
      by (cases "names = []") (auto simp: check_headers_def)
  next
    case size: (Inr n)
    with assms Inr show ?thesis
      by (cases "names = []") (auto simp: check_headers_def split: if_splits)
  qed
qed

lemma passthrough_error: "passthrough_headers U hs = Inl e \<Longrightarrow> header_error e"
  by (auto simp: passthrough_headers_def bindR_Inl_iff Let_def header_error_def
      dest: trim_error check_headers_error [unfolded header_error_def])

text \<open>What the result is in terms of the ids to send.\<close>

lemma passthrough_Inr:
  assumes "passthrough_headers U hs = Inr h"
  defines "ids \<equiv> reference_ids U hs" and "m \<equiv> merge_headers U hs"
  shows "(ids = [] \<and> h = m)
    \<or> (\<exists>k < length ids. h = set_references (drop k ids) m
         \<and> (\<forall>j < k. references_oversized (set_references (drop j ids) m) = Inr True))"
proof -
  obtain d' refs' where t: "trim (if ids \<noteq> [] then set_references ids m else m) ids = Inr (d', refs')"
    and c: "check_headers d' = Inr h"
    using assms by (auto simp: passthrough_headers_def bindR_Inr_iff Let_def)
  have h: "h = d'" using check_headers_ok [OF c] by simp
  show ?thesis
  proof (cases "ids = []")
    case True
    with t h show ?thesis by (auto dest: trim_no_references)
  next
    case False
    with t have "trim (set_references ids m) ids = Inr (d', refs')" by simp
    from trim_spec [OF this] obtain k where "k \<le> length ids - 1" "d' = set_references (drop k ids) m"
      "\<forall>j < k. references_oversized (set_references (drop j ids) m) = Inr True"
      by blast
    moreover from this False have "k < length ids" by (cases ids) auto
    ultimately show ?thesis using h by blast
  qed
qed

lemma passthrough_ok:
  assumes "passthrough_headers U hs = Inr h"
  shows "names_ok U (keys h) \<and> within_limits h"
proof -
  have m: "names_ok U (keys (merge_headers U hs))"
    using names_ok_merge [of U "[]" hs] by (simp add: merge_headers_def keys_def)
  have "within_limits h"
    using assms by (auto simp: passthrough_headers_def bindR_Inr_iff Let_def dest: check_headers_ok)
  moreover have "names_ok U (keys h)"
    using passthrough_Inr [OF assms] m names_ok_set_references [OF m] by auto
  ultimately show ?thesis by simp
qed

lemma reference_ids_msgid:
  assumes "own_id U hs = [] \<or> is_msgid (own_id U hs)"
  shows "\<forall>s \<in> set (reference_ids U hs). is_msgid s"
  using assms by (auto simp: reference_ids_def Let_def msgids_valid split: if_splits)

section \<open>Evaluation on messages with an id and References\<close>

lemma merge_drop: "\<not> header_allowed U (lower U n) \<Longrightarrow> merge_header U d (n, v) = d"
  by (simp add: merge_header_def Let_def)

lemma message_id_reserved: "\<not> header_allowed U (lower U (lit ''Message-Id''))"
proof -
  have "lower U (lit ''Message-Id'') \<notin> HEADER_ALLOWLIST U"
    by (simp add: HEADER_ALLOWLIST_def ALLOWED_HEADERS_def lower_def ascii_lower_def)
  then show ?thesis
    by (simp add: header_allowed_def HEADER_ALLOWED_PREFIXES_def lower_def ascii_lower_def
        startswith_def)
qed

definition id_message :: "pystr \<Rightarrow> pystr \<Rightarrow> (pystr \<times> pystr) list" where
  "id_message own refs = [(lit ''Message-Id'', own), (REFERENCES, refs)]"

lemma merge_id_message: "merge_headers U (id_message own refs) = [(REFERENCES, strip refs)]"
proof -
  have "merge_header U [] (REFERENCES, refs) = [(REFERENCES, strip refs)]"
    by (simp add: merge_header_def Let_def)
  then show ?thesis
    by (simp add: merge_headers_def id_message_def merge_drop [OF message_id_reserved] del: lit_simps)
qed

lemma own_id_message: "own_id U (id_message own refs) = strip own"
  by (simp add: own_id_def header_text_def header_get_def id_message_def del: lit_simps)

lemma encode_references: "encode REFERENCES = Some (map oct REFERENCES)" "length REFERENCES = 10"
  by (rule encode_ascii) (simp_all add: REFERENCES_def)

lemma oversized_single:
  "ascii v \<Longrightarrow> references_oversized [(REFERENCES, v)] = Inr (2048 < length v)"
  by (simp add: references_oversized_def dict_get_def encode_py_def encode_ascii header_size_def
      field_size_def MAX_HEADER_VALUE_BYTES_def MAX_HEADER_BYTES_def encode_references)

lemma check_single: "ascii v \<Longrightarrow> length v \<le> 2048 \<Longrightarrow> check_headers [(REFERENCES, v)] = Inr [(REFERENCES, v)]"
  by (simp add: check_headers_def too_long_names_def value_too_long_def encode_py_def encode_ascii
      header_size_def field_size_def MAX_HEADER_VALUE_BYTES_def MAX_HEADER_BYTES_def
      MAX_HEADER_COUNT_def encode_references)

lemma passthrough_fits:
  assumes "merge_headers U hs = [(REFERENCES, w)]" and "reference_ids U hs = ids" and "ids \<noteq> []"
    and "ascii (join [32] ids)" and "length (join [32] ids) \<le> 2048"
  shows "passthrough_headers U hs = Inr [(REFERENCES, join [32] ids)]"
  using assms oversized_single [OF assms(4)] check_single [OF assms(4,5)]
  by (simp add: passthrough_headers_def set_references_def trim.simps)

lemma passthrough_drops_first:
  assumes "merge_headers U hs = [(REFERENCES, w)]" and "reference_ids U hs = [x, y]"
    and "ascii (join [32] [x, y])" and "2048 < length (join [32] [x, y])" and "length y \<le> 2048"
  shows "passthrough_headers U hs = Inr [(REFERENCES, y)]"
proof -
  have y: "ascii y" using assms(3) by simp
  show ?thesis
    using assms oversized_single [OF assms(3)] oversized_single [OF y] check_single [OF y assms(5)]
    by (simp add: passthrough_headers_def set_references_def trim.simps)
qed

lemma passthrough_sample:
  "passthrough_headers U (id_message (lit ''<o>'') (lit ''<a>'')) = Inr [(REFERENCES, lit ''<a> <o>'')]"
proof -
  have "is_msgid (lit ''<a>'')"
    unfolding is_msgid_def by (intro exI [of _ "[97]"]) (simp add: not_angle_def)
  then have "msgids (lit ''<a>'') = [lit ''<a>'']"
    using msgids_join [of "[lit ''<a>'']"] by simp
  then have "reference_ids U (id_message (lit ''<o>'') (lit ''<a>'')) = [lit ''<a>'', lit ''<o>'']"
    by (simp add: reference_ids_def merge_id_message own_id_message dict_get_def strip_def
        strip_by_def py_space_def)
  from passthrough_fits [OF merge_id_message this] show ?thesis by simp
qed

section \<open>Properties\<close>


lemma trim_loop_simps:
  "references_oversized headers = Inl e \<Longrightarrow> trim_test (Inr (headers, refs))"
  "references_oversized headers = Inr big \<Longrightarrow> trim_test (Inr (headers, refs)) = (big \<and> 1 < length refs)"
  "references_oversized headers = Inr big \<Longrightarrow>
     trim_body (Inr (headers, refs)) = Inr (set_references (tl refs) headers, tl refs)"
  by (simp_all add: trim_test_def trim_body_def)

text \<open>
  C25. The loop that trims References ends on every input, whatever the headers hold: as a
  while loop it has a result, and the result is that of the recursive function the other
  properties are about, exceptions included.
\<close>

theorem trim_loop_ends:
  "while_option trim_test trim_body (Inr (headers, refs)) = Some (trim headers refs)"
proof (induction headers refs rule: trim.induct)
  case (1 headers refs)
  show ?case
  proof (cases "references_oversized headers")
    case (Inl e)
    then have "while_option trim_test trim_body (trim_body (Inr (headers, refs))) = Some (Inl e)"
      by (subst while_option_unfold) (simp add: trim_test_def trim_body_def)
    with Inl show ?thesis
      by (subst while_option_unfold) (simp add: trim_loop_simps trim.simps [of headers])
  next
    case (Inr big)
    with 1 [of big] show ?thesis
      by (subst while_option_unfold) (simp add: trim_loop_simps trim.simps [of headers])
  qed
qed

text \<open>
  C26. References is trimmed from the front and no more than needed: when the call returns,
  the header is the ids of the message (its own one last when it was new) without the first
  \<open>k\<close>, at least one id is left, and with any fewer dropped the limits were still exceeded;
  every other header is as merged.
\<close>

theorem references_trimmed_minimally:
  "case passthrough_headers U hs of
     Inl e \<Rightarrow> header_error e
   | Inr h \<Rightarrow>
       (reference_ids U hs = [] \<and> h = merge_headers U hs)
       \<or> (\<exists>k < length (reference_ids U hs).
            h = set_references (drop k (reference_ids U hs)) (merge_headers U hs)
            \<and> dict_get h REFERENCES = join [32] (drop k (reference_ids U hs))
            \<and> last (drop k (reference_ids U hs)) = last (reference_ids U hs)
            \<and> list_all (\<lambda>j. references_oversized
                 (set_references (drop j (reference_ids U hs)) (merge_headers U hs)) = Inr True) [0..<k])"
proof (cases "passthrough_headers U hs")
  case (Inl e)
  with passthrough_error show ?thesis by simp
next
  case (Inr h)
  from passthrough_Inr [OF Inr] show ?thesis
    unfolding Inr sum.case by (auto simp: list_all_iff)
qed

text \<open>
  Odoo's own id survives: if it was not already among the References entries, a
  successful call sends it as the last entry, after the newest of the others.
\<close>

theorem own_id_kept:
  assumes "passthrough_headers U hs = Inr h"
    and "own_id U hs \<noteq> []"
    and "own_id U hs \<notin> set (msgids (dict_get (merge_headers U hs) REFERENCES))"
  shows "\<exists>k. dict_get h REFERENCES =
      join [32] (drop k (msgids (dict_get (merge_headers U hs) REFERENCES)) @ [own_id U hs])"
proof -
  have ids: "reference_ids U hs = msgids (dict_get (merge_headers U hs) REFERENCES) @ [own_id U hs]"
    using assms(2,3) by (simp add: reference_ids_def Let_def)
  with passthrough_Inr [OF assms(1)] obtain k where
    "k < length (reference_ids U hs)"
    "h = set_references (drop k (reference_ids U hs)) (merge_headers U hs)"
    by auto
  then show ?thesis by (intro exI [of _ k]) (simp add: ids)
qed

lemma own_id_kept_witness:
  "\<exists>k. dict_get [(REFERENCES, lit ''<a> <o>'')] REFERENCES =
     join [32] (drop k (msgids (lit ''<a>'')) @ [lit ''<o>''])"
  using own_id_kept [OF passthrough_sample]
  by (simp add: merge_id_message own_id_message dict_get_def strip_def strip_by_def py_space_def
      msgids.simps(2) not_angle_def Let_def)

text \<open>
  A reader of the sent References gets exactly the ids that were meant: scanning the
  header value with the same pattern returns the trimmed list, given that the own id, like
  every id Odoo makes, has the form of a message id.
\<close>

theorem references_readable:
  assumes "passthrough_headers U hs = Inr h"
    and "is_msgid (own_id U hs)"
  shows "\<exists>k < length (reference_ids U hs).
      msgids (dict_get h REFERENCES) = drop k (reference_ids U hs)"
proof -
  have valid: "\<forall>s \<in> set (reference_ids U hs). is_msgid s"
    using assms(2) by (intro reference_ids_msgid) simp
  have "reference_ids U hs \<noteq> []"
    using assms(2) by (auto simp: reference_ids_def Let_def is_msgid_def)
  with passthrough_Inr [OF assms(1)] obtain k where k: "k < length (reference_ids U hs)"
    "h = set_references (drop k (reference_ids U hs)) (merge_headers U hs)"
    by auto
  moreover have "msgids (join [32] (drop k (reference_ids U hs))) = drop k (reference_ids U hs)"
    using valid by (intro msgids_join) (auto dest: in_set_dropD)
  ultimately show ?thesis by (intro exI [of _ k]) simp
qed

lemma references_readable_witness:
  "\<exists>k < length (reference_ids plain_interp (id_message (lit ''<o>'') (lit ''<a>''))).
     msgids (lit ''<a> <o>'') = drop k (reference_ids plain_interp (id_message (lit ''<o>'') (lit ''<a>'')))"
proof -
  have "own_id plain_interp (id_message (lit ''<o>'') (lit ''<a>'')) = lit ''<o>''"
    by (simp add: own_id_message strip_def strip_by_def py_space_def)
  moreover have "is_msgid (lit ''<o>'')"
    unfolding is_msgid_def by (intro exI [of _ "[111]"]) (simp add: not_angle_def)
  ultimately show ?thesis
    using references_readable [OF passthrough_sample, of plain_interp] by (simp add: dict_get_def)
qed

text \<open>
  The promise that the own id is never dropped has a gap: an own id that is already in
  References, but not last, is an entry like the others. With the own id first and one long
  id after it, the trimmed header holds the long id only.
\<close>

theorem own_id_first_is_dropped:
  fixes U :: interp
  defines "own \<equiv> lit ''<o>''" and "long \<equiv> 60 # replicate 2046 97 @ [62]"
  shows "passthrough_headers U (id_message own (own @ [32] @ long)) = Inr [(REFERENCES, long)]
    \<and> own \<notin> set (msgids long)"
proof -
  have o: "is_msgid own" and l: "is_msgid long"
    unfolding is_msgid_def own_def long_def
    by (rule exI [of _ "[111]"], simp add: not_angle_def)
      (rule exI [of _ "replicate 2046 97"], simp add: not_angle_def)
  have so: "strip own = own"
    by (simp add: own_def strip_def strip_by_def py_space_def)
  have sl: "strip (own @ [32] @ long) = own @ [32] @ long"
    unfolding strip_def by (rule strip_by_id) (simp add: own_def long_def py_space_def)
  have ids: "msgids (own @ [32] @ long) = [own, long]"
    using msgids_join [of "[own, long]"] o l by simp
  have "reference_ids U (id_message own (own @ [32] @ long)) = [own, long]"
    using ids by (simp add: reference_ids_def merge_id_message own_id_message so dict_get_def
        sl [simplified])
  from passthrough_drops_first [OF merge_id_message this]
  have "passthrough_headers U (id_message own (own @ [32] @ long)) = Inr [(REFERENCES, long)]"
    by (simp add: own_def long_def ascii_def)
  moreover have "msgids long = [long]" using msgids_join [of "[long]"] l by simp
  moreover have "own \<noteq> long"
  proof
    assume "own = long"
    then have "length own = length long" by simp
    then show False by (simp add: own_def long_def)
  qed
  ultimately show ?thesis by simp
qed

end
