(* ===== verification/Payload.thy ===== *)
theory Payload
  imports Recipients Content Headers
begin

text \<open>
  \<open>build_payload\<close> of \<open>cloudflare_api.py\<close>: the JSON body of a send request. The Python
  dictionary is a record whose optional keys are options; \<open>payload_json\<close> lists the keys in
  the order the code inserts them.
\<close>

section \<open>The code\<close>

text \<open>
  What is not in the repository and \<open>build_payload\<close> relies on: the Unicode data base,
  Odoo's \<open>email_split_tuples\<close> and \<open>mimetypes.guess_extension\<close>.
\<close>

record mail_env =
  env_interp :: interp
  email_split_tuples :: "pystr \<Rightarrow> (pystr \<times> pystr) list"
  guess_extension :: "pystr \<Rightarrow> pystr option"

record payload =
  p_from :: cf_address
  p_to :: "cf_address list"
  p_subject :: pystr
  p_cc :: "cf_address list option"
  p_bcc :: "cf_address list option"
  p_reply_to :: "cf_address option"
  p_text :: "pystr option"
  p_html :: "pystr option"
  p_headers :: "(pystr, pystr) dict option"
  p_attachments :: "cf_attachment list option"

text \<open>\<open>if xs: payload[k] = xs\<close>\<close>

definition if_nonempty :: "'a list \<Rightarrow> 'a list option" where
  "if_nonempty xs = (if xs \<noteq> [] then Some xs else None)"

definition build_payload :: "mail_env \<Rightarrow> message \<Rightarrow> pystr list \<Rightarrow> payload py" where
  "build_payload E m smtp_to_list =
     (let U = env_interp E; split = email_split_tuples E; hs = msg_headers m in
      case split (header_text U hs (lit ''From'')) of
        [] \<Rightarrow> Inl (cf_error (lit ''The message has no valid From address.''))
      | sender # senders \<Rightarrow>
          bindR (split_recipients U split hs smtp_to_list) (\<lambda>(to, cc, bcc).
          bindR (extract_content (guess_extension E) m) (\<lambda>(tx, html, attachments).
            if tx = None \<and> html = None then
              Inl (cf_error (lit ''The message has neither a text nor an html body; Cloudflare requires at least one.''))
            else
              let reply_to = split (header_text U hs (lit ''Reply-To'')) in
              bindR (passthrough_headers U hs) (\<lambda>headers.
                Inr \<lparr>p_from = address_of sender, p_to = to,
                     p_subject = header_text U hs (lit ''Subject''),
                     p_cc = if_nonempty cc, p_bcc = if_nonempty bcc,
                     p_reply_to = (case reply_to of [] \<Rightarrow> None | r # rs \<Rightarrow> Some (address_of r)),
                     p_text = tx, p_html = html,
                     p_headers = if_nonempty headers,
                     p_attachments = if_nonempty attachments\<rparr>))))"

definition opt_field :: "string \<Rightarrow> ('a \<Rightarrow> json) \<Rightarrow> 'a option \<Rightarrow> (pystr \<times> json) list" where
  "opt_field k f v = (case v of None \<Rightarrow> [] | Some x \<Rightarrow> [(lit k, f x)])"

definition payload_json :: "payload \<Rightarrow> json" where
  "payload_json p =
     JObj ([(lit ''from'', address_json (p_from p)),
            (lit ''to'', JArr (map address_json (p_to p))),
            (lit ''subject'', JStr (p_subject p))]
       @ opt_field ''cc'' (\<lambda>xs. JArr (map address_json xs)) (p_cc p)
       @ opt_field ''bcc'' (\<lambda>xs. JArr (map address_json xs)) (p_bcc p)
       @ opt_field ''reply_to'' address_json (p_reply_to p)
       @ opt_field ''text'' JStr (p_text p)
       @ opt_field ''html'' JStr (p_html p)
       @ opt_field ''headers'' (\<lambda>d. JObj (map (\<lambda>(k, v). (k, JStr v)) d)) (p_headers p)
       @ opt_field ''attachments'' (\<lambda>xs. JArr (map attachment_json xs)) (p_attachments p))"

text \<open>\<open>payload.get(k) or []\<close> over the three recipient fields.\<close>

definition opt_list :: "'a list option \<Rightarrow> 'a list" where
  "opt_list v = (case v of None \<Rightarrow> [] | Some xs \<Rightarrow> xs)"

definition payload_recipients :: "payload \<Rightarrow> cf_address list" where
  "payload_recipients p = p_to p @ opt_list (p_cc p) @ opt_list (p_bcc p)"

lemma opt_list_if_nonempty [simp]: "opt_list (if_nonempty xs) = xs"
  by (simp add: opt_list_def if_nonempty_def)

section \<open>Properties\<close>

text \<open>The fields a send request may have.\<close>

definition PAYLOAD_FIELDS :: "pystr list" where
  "PAYLOAD_FIELDS = map lit [''from'', ''to'', ''subject'', ''cc'', ''bcc'', ''reply_to'', ''text'',
     ''html'', ''headers'', ''attachments'']"

lemma build_payload_Inr:
  assumes "build_payload E m rcpts = Inr p"
  obtains sender senders to cc bcc tx ht ats hs where
    "email_split_tuples E (header_text (env_interp E) (msg_headers m) (lit ''From'')) = sender # senders"
    "split_recipients (env_interp E) (email_split_tuples E) (msg_headers m) rcpts = Inr (to, cc, bcc)"
    "extract_content (guess_extension E) m = Inr (tx, ht, ats)" "tx \<noteq> None \<or> ht \<noteq> None"
    "passthrough_headers (env_interp E) (msg_headers m) = Inr hs"
    "p_from p = address_of sender" "p_to p = to" "p_cc p = if_nonempty cc" "p_bcc p = if_nonempty bcc"
    "p_text p = tx" "p_html p = ht" "p_headers p = if_nonempty hs"
    "p_attachments p = if_nonempty ats"
  using assms
  by (auto simp: build_payload_def Let_def bindR_Inr_iff simp del: lit_simps
      split: list.splits if_splits)

lemma build_payload_recipients:
  assumes "build_payload E m rcpts = Inr p"
  shows "addr_key (env_interp E) ` set (payload_recipients p) = lower (env_interp E) ` set rcpts"
    and "payload_recipients p \<noteq> []"
proof -
  obtain to cc bcc where
    r: "split_recipients (env_interp E) (email_split_tuples E) (msg_headers m) rcpts = Inr (to, cc, bcc)"
    and p: "p_to p = to" "p_cc p = if_nonempty cc" "p_bcc p = if_nonempty bcc"
    using assms by (elim build_payload_Inr) metis
  have rec: "payload_recipients p = to @ cc @ bcc" by (simp add: payload_recipients_def p)
  have "mset (map (addr_key (env_interp E)) (payload_recipients p)) = mset_set (lower (env_interp E) ` set rcpts)"
    and n: "1 \<le> length (payload_recipients p)"
    unfolding rec using split_recipients_Inr [OF r] by simp_all
  then have "set_mset (mset (map (addr_key (env_interp E)) (payload_recipients p)))
      = set_mset (mset_set (lower (env_interp E) ` set rcpts))" by (simp only:)
  then show "addr_key (env_interp E) ` set (payload_recipients p) = lower (env_interp E) ` set rcpts" by simp
  from n show "payload_recipients p \<noteq> []" by auto
qed

text \<open>
  C27. A request body that is built is acceptable to the API as far as the code can tell: its
  recipients over to, cc and bcc are exactly the envelope, once each and at most 50; it has a
  non-blank text or html body; its custom headers obey the limits; its From is the first
  address of the From header.
\<close>

theorem build_payload_acceptable:
  "case build_payload E m rcpts of
     Inl e \<Rightarrow> True
   | Inr p \<Rightarrow>
       mset (map (addr_key (env_interp E)) (payload_recipients p)) = mset_set (lower (env_interp E) ` set rcpts)
       \<and> 1 \<le> length (payload_recipients p) \<and> length (payload_recipients p) \<le> MAX_RECIPIENTS
       \<and> (\<exists>s. (p_text p = Some s \<or> p_html p = Some s) \<and> strip s \<noteq> [])
       \<and> within_limits (opt_list (p_headers p)) \<and> names_ok (env_interp E) (keys (opt_list (p_headers p)))
       \<and> (\<exists>n ps. email_split_tuples E (header_text (env_interp E) (msg_headers m) (lit ''From''))
              = (n, ca_address (p_from p)) # ps)"
proof (cases "build_payload E m rcpts")
  case (Inr p)
  obtain sender senders to cc bcc tx ht ats hs where
    f: "email_split_tuples E (header_text (env_interp E) (msg_headers m) (lit ''From'')) = sender # senders"
    and r: "split_recipients (env_interp E) (email_split_tuples E) (msg_headers m) rcpts = Inr (to, cc, bcc)"
    and c: "extract_content (guess_extension E) m = Inr (tx, ht, ats)" "tx \<noteq> None \<or> ht \<noteq> None"
    and h: "passthrough_headers (env_interp E) (msg_headers m) = Inr hs"
    and p: "p_from p = address_of sender" "p_to p = to" "p_cc p = if_nonempty cc"
      "p_bcc p = if_nonempty bcc" "p_text p = tx" "p_html p = ht" "p_headers p = if_nonempty hs"
    using build_payload_Inr [OF Inr] by metis
  have rec: "payload_recipients p = to @ cc @ bcc" by (simp add: payload_recipients_def p)
  obtain n a where s: "sender = (n, a)" by (cases sender)
  have body: "\<exists>s. (tx = Some s \<or> ht = Some s) \<and> strip s \<noteq> []"
    using c by (auto simp: extract_content_def bindR_Inr_iff nonblank_Some simp del: lit_simps)
  show ?thesis
    unfolding Inr sum.case rec
    using split_recipients_Inr [OF r] passthrough_ok [OF h] body f
    by (simp add: p s del: lit_simps)
qed simp

lemma distinct_PAYLOAD_FIELDS: "distinct PAYLOAD_FIELDS"
  by (simp add: PAYLOAD_FIELDS_def lit_inject del: lit_simps)

lemma keys_opt_field: "subseq (keys (opt_field k f v)) [lit k]"
  by (cases v) (simp_all add: opt_field_def keys_def)

lemma keys_append: "keys (d @ d') = keys d @ keys d'"
  by (simp add: keys_def)

text \<open>The keys of a body are a selection of the fields, in their order.\<close>

lemma payload_json_keys:
  obtains d where "payload_json p = JObj d" "subseq (keys d) PAYLOAD_FIELDS"
    "{lit ''from'', lit ''to'', lit ''subject''} \<subseteq> set (keys d)"
proof -
  obtain d where d: "payload_json p = JObj d" by (simp add: payload_json_def)
  let ?f = "[lit ''from'', lit ''to'', lit ''subject'']"
  have k: "PAYLOAD_FIELDS = ?f @ [lit ''cc''] @ [lit ''bcc''] @ [lit ''reply_to''] @ [lit ''text'']
      @ [lit ''html''] @ [lit ''headers''] @ [lit ''attachments'']"
    by (simp add: PAYLOAD_FIELDS_def del: lit_simps)
  have d_def: "keys d = ?f @ keys (opt_field ''cc'' (\<lambda>xs. JArr (map address_json xs)) (p_cc p))
      @ keys (opt_field ''bcc'' (\<lambda>xs. JArr (map address_json xs)) (p_bcc p))
      @ keys (opt_field ''reply_to'' address_json (p_reply_to p))
      @ keys (opt_field ''text'' JStr (p_text p)) @ keys (opt_field ''html'' JStr (p_html p))
      @ keys (opt_field ''headers'' (\<lambda>d. JObj (map (\<lambda>(k, v). (k, JStr v)) d)) (p_headers p))
      @ keys (opt_field ''attachments'' (\<lambda>xs. JArr (map attachment_json xs)) (p_attachments p))"
    using d by (auto simp: payload_json_def keys_def simp del: lit_simps)
  have "subseq (keys d) PAYLOAD_FIELDS"
    unfolding k d_def by (intro list_emb_append_mono keys_opt_field subseq_order.order_refl)
  moreover have "set ?f \<subseteq> set (keys d)"
    unfolding d_def by (simp del: lit_simps)
  ultimately show thesis using d that by (simp del: lit_simps)
qed

text \<open>
  The body is a JSON object with distinct keys, all of them fields of the API; from, to
  and subject are always there, and cc, bcc, headers and attachments are never present but
  empty.
\<close>

theorem payload_json_fields:
  "case build_payload E m rcpts of
     Inl e \<Rightarrow> True
   | Inr p \<Rightarrow>
       \<exists>d. payload_json p = JObj d \<and> wf_dict d \<and> set (keys d) \<subseteq> set PAYLOAD_FIELDS
         \<and> {lit ''from'', lit ''to'', lit ''subject''} \<subseteq> set (keys d)
         \<and> p_cc p \<noteq> Some [] \<and> p_bcc p \<noteq> Some [] \<and> p_headers p \<noteq> Some [] \<and> p_attachments p \<noteq> Some []"
proof (cases "build_payload E m rcpts")
  case (Inr p)
  then have "p_cc p \<noteq> Some [] \<and> p_bcc p \<noteq> Some [] \<and> p_headers p \<noteq> Some [] \<and> p_attachments p \<noteq> Some []"
    by (elim build_payload_Inr) (auto simp: if_nonempty_def split: if_splits)
  moreover obtain d where d: "payload_json p = JObj d" "subseq (keys d) PAYLOAD_FIELDS"
    "{lit ''from'', lit ''to'', lit ''subject''} \<subseteq> set (keys d)"
    by (rule payload_json_keys)
  have "wf_dict d"
    using d(2) distinct_PAYLOAD_FIELDS by (auto simp: wf_dict_def subseq_distinct)
  moreover have "set (keys d) \<subseteq> set PAYLOAD_FIELDS"
    using d(2) by (auto dest: list_emb_set)
  ultimately show ?thesis
    unfolding Inr sum.case using d(1,3) by blast
qed simp

end
