(* ===== verification/Http.thy ===== *)
theory Http
  imports PyJson
begin

text \<open>
  The HTTP side of \<open>cloudflare_api.py\<close>: reading a response (\<open>_parse_json\<close>, \<open>_describe\<close>,
  \<open>_first_code\<close>, \<open>_retry_after\<close>) and \<open>verify_token\<close>. The network is outside: a request is
  answered by a \<open>reply\<close>, a response or the text of a \<open>requests.RequestException\<close>, and what
  the code does to the world is the list of its events (requests, closing the connection
  pool, sleeping, and the warning that \<open>_check_recipients\<close> logs).
\<close>

section \<open>Constants and the world\<close>

definition API_BASE :: pystr where
  "API_BASE = lit ''https://api.cloudflare.com/client/v4''"

definition VERIFY_URL :: pystr where
  "VERIFY_URL = API_BASE @ lit ''/user/tokens/verify''"

definition REQUEST_TIMEOUT :: nat where "REQUEST_TIMEOUT = 30"

text \<open>\<open>body_json\<close> is what \<open>response.json()\<close> returns, \<open>None\<close> where it raises \<open>ValueError\<close>.\<close>

record response =
  status_code :: int
  body_json :: "json option"
  retry_header :: "pystr option"

datatype reply = Answer response | NetworkError pystr

datatype http_event =
    is_HttpGet: HttpGet (get_url: pystr) (get_headers: "(pystr \<times> pystr) list") (get_timeout: nat)
  | is_HttpPost: HttpPost (post_url: pystr) (post_body: bytes) (post_headers: "(pystr \<times> pystr) list") (post_timeout: nat)
  | HttpClose
  | is_Sleep: Sleep (sleep_seconds: int)
  | LogWarning json pystr

section \<open>Reading a response\<close>

text \<open>\<open>JNull\<close> is the \<open>None\<close> of a body that is not a JSON object.\<close>

definition parse_json :: "response \<Rightarrow> json" where
  "parse_json r = (case body_json r of Some (JObj d) \<Rightarrow> JObj d | _ \<Rightarrow> JNull)"

text \<open>\<open>(payload or {}).get("errors") or []\<close>\<close>

definition errors_of :: "json \<Rightarrow> json py" where
  "errors_of payload =
     bindR (jget (py_or payload (JObj [])) (lit ''errors'')) (\<lambda>e. Inr (py_or e (JArr [])))"

definition error_detail :: "interp \<Rightarrow> json \<Rightarrow> pystr py" where
  "error_detail U error =
     bindR (jget error (lit ''code'')) (\<lambda>c.
     bindR (jget error (lit ''message'')) (\<lambda>m. Inr (py_str U c @ lit '': '' @ py_str U m)))"

definition describe :: "interp \<Rightarrow> int \<Rightarrow> json \<Rightarrow> pystr py" where
  "describe U status payload =
     bindR (errors_of payload) (\<lambda>errors.
     bindR (py_iter errors) (\<lambda>xs.
     bindR (traverse (error_detail U) (filter is_dict xs)) (\<lambda>ds.
       let details = join (lit ''; '') ds in
       Inr (lit ''HTTP '' @ dec_int status
            @ (if details \<noteq> [] then lit '' ('' @ details @ lit '')'' else [])))))"

definition first_code :: "json \<Rightarrow> json py" where
  "first_code payload =
     bindR (errors_of payload) (\<lambda>errors.
       if truthy errors then
         bindR (py_index0 errors) (\<lambda>e. if is_dict e then jget e (lit ''code'') else Inr JNull)
       else Inr JNull)"

definition retry_after :: "interp \<Rightarrow> response \<Rightarrow> int option" where
  "retry_after U r = py_int U (case retry_header r of None \<Rightarrow> [] | Some s \<Rightarrow> s)"

text \<open>
  \<open>raise CloudflareEmailError(prefix + describe + suffix, status, first_code, fatal)\<close>, as an
  exception or the one its arguments raise.
\<close>

definition refusal ::
  "interp \<Rightarrow> pystr \<Rightarrow> pystr \<Rightarrow> bool \<Rightarrow> int \<Rightarrow> json \<Rightarrow> py_exc py"
where
  "refusal U before after fatal status payload =
     bindR (describe U status payload) (\<lambda>d.
     bindR (first_code payload) (\<lambda>c.
       Inr (CloudflareEmailError (before @ d @ after) (Some status) c fatal)))"

definition throw :: "py_exc py \<Rightarrow> 'a py" where
  "throw r = (case r of Inl e \<Rightarrow> Inl e | Inr e \<Rightarrow> Inl e)"

section \<open>verify_token\<close>

definition verify_result :: "interp \<Rightarrow> reply \<Rightarrow> json py" where
  "verify_result U reply =
     (case reply of
        NetworkError t \<Rightarrow> Inl (cf_error (lit ''Could not reach Cloudflare: '' @ t))
      | Answer r \<Rightarrow>
          let payload = parse_json r; status = status_code r in
          if status \<in> {401, 403} then
            throw (refusal U (lit ''Cloudflare rejected the API token: '') [] True status payload)
          else
            bindR (if status \<noteq> 200 \<or> \<not> truthy payload then Inr False
                   else bindR (jget payload (lit ''success'')) (\<lambda>s. Inr (truthy s))) (\<lambda>ok.
            if \<not> ok then throw (refusal U (lit ''Token verification failed: '') [] False status payload)
            else
              bindR (jget payload (lit ''result'')) (\<lambda>res0.
                let res = py_or res0 (JObj []) in
                bindR (jget res (lit ''status'')) (\<lambda>st.
                  if st \<noteq> JStr (lit ''active'') then
                    Inl (cf_error (lit ''The API token is not active (status: '' @ py_repr U st @ lit '').''))
                  else Inr res))))"

text \<open>
  One GET; the session is closed in the \<open>finally\<close> block when \<open>verify_token\<close> made it
  itself (\<open>owns_http\<close>), whatever the GET did.
\<close>

definition verify_token :: "interp \<Rightarrow> pystr \<Rightarrow> bool \<Rightarrow> reply \<Rightarrow> http_event list \<times> json py" where
  "verify_token U api_token owns_http reply =
     (HttpGet VERIFY_URL [(lit ''Authorization'', lit ''Bearer '' @ api_token)] REQUEST_TIMEOUT
        # (if owns_http then [HttpClose] else []),
      verify_result U reply)"

section \<open>Well-formed error lists\<close>

text \<open>
  The documented form of a body: \<open>errors\<close> is absent, null or a list. On such a body reading
  the errors never raises.
\<close>

definition errors_list :: "json \<Rightarrow> bool" where
  "errors_list payload \<longleftrightarrow>
     (case payload of
        JObj d \<Rightarrow> (case map_of d (lit ''errors'') of
                     None \<Rightarrow> True | Some e \<Rightarrow> \<not> truthy e \<or> (\<exists>xs. e = JArr xs))
      | _ \<Rightarrow> True)"

lemma parse_json_cases: "parse_json r = JNull \<or> is_dict (parse_json r)"
  by (simp add: parse_json_def split: option.splits json.splits)

lemma errors_of_list:
  assumes "errors_list payload" and "payload = JNull \<or> is_dict payload"
  shows "\<exists>xs. errors_of payload = Inr (JArr xs)"
  using assms
  by (cases payload) (auto simp: errors_of_def errors_list_def py_or_def
      simp del: lit_simps split: option.splits if_splits)

lemma error_detail_dict: "is_dict e \<Longrightarrow> \<exists>s. error_detail U e = Inr s"
  by (cases e) (auto simp: error_detail_def)

lemma traverse_ex: "(\<And>x. x \<in> set xs \<Longrightarrow> \<exists>y. f x = Inr y) \<Longrightarrow> \<exists>ys. traverse f xs = Inr ys"
proof (induction xs)
  case (Cons x xs)
  then obtain y ys where "f x = Inr y" "traverse f xs = Inr ys" by fastforce
  then show ?case by simp
qed simp

lemma refusal_list:
  assumes "errors_list payload" and "payload = JNull \<or> is_dict payload"
  shows "\<exists>m c. refusal U before after fatal status payload = Inr (CloudflareEmailError m (Some status) c fatal)"
proof -
  obtain xs where e: "errors_of payload = Inr (JArr xs)" using errors_of_list [OF assms] by blast
  obtain ds where ds: "traverse (error_detail U) (filter is_dict xs) = Inr ds"
    using traverse_ex [of "filter is_dict xs" "error_detail U"] error_detail_dict by auto
  have c: "\<exists>c. first_code payload = Inr c"
  proof (cases xs)
    case (Cons x ys)
    then show ?thesis using e jget_dict [of x] by (auto simp: first_code_def simp del: lit_simps)
  qed (simp add: first_code_def e)
  from e ds c show ?thesis
    by (auto simp: refusal_def describe_def Let_def simp del: lit_simps)
qed

lemma refusal_status:
  "refusal U before after fatal status payload = Inr e \<Longrightarrow>
     is_cf_error e \<and> cf_status e = Some status \<and> cf_fatal e = fatal"
  by (auto simp: refusal_def bindR_Inr_iff)

text \<open>The documented form also has an object, or nothing, as \<open>result\<close>.\<close>

definition result_object :: "json \<Rightarrow> bool" where
  "result_object payload \<longleftrightarrow>
     (case payload of
        JObj d \<Rightarrow> (case map_of d (lit ''result'') of
                     None \<Rightarrow> True | Some r \<Rightarrow> \<not> truthy r \<or> is_dict r)
      | _ \<Rightarrow> True)"

definition documented :: "response \<Rightarrow> bool" where
  "documented r \<longleftrightarrow> errors_list (parse_json r) \<and> result_object (parse_json r)"

lemma throw_refusal_documented:
  "errors_list (parse_json r) \<Longrightarrow>
     \<exists>m c. throw (refusal U before after fatal status (parse_json r))
            = Inl (CloudflareEmailError m (Some status) c fatal)"
  using refusal_list [OF _ parse_json_cases, of r U before after fatal status]
  by (auto simp: throw_def)

lemma throw_Inl: "\<exists>e. throw r = Inl e"
  by (cases r) (auto simp: throw_def)

lemma throw_not_Inr [simp]: "throw r \<noteq> Inr x"
  by (cases r) (auto simp: throw_def)

lemma describe_no_cf: "describe U status payload = Inl e \<Longrightarrow> \<not> is_cf_error e"
  by (auto simp: describe_def Let_def errors_of_def error_detail_def bindR_Inl_iff jget_Inl_iff
      dest!: traverse_Inl py_iter_Inl simp del: lit_simps)

lemma first_code_no_cf: "first_code payload = Inl e \<Longrightarrow> \<not> is_cf_error e"
  by (auto simp: first_code_def errors_of_def bindR_Inl_iff jget_Inl_iff
      dest!: py_index0_Inl simp del: lit_simps split: if_splits)

lemma throw_refusal_fatal:
  assumes "throw (refusal U before after fatal status payload) = Inl e"
  shows "cf_fatal e \<longleftrightarrow> is_cf_error e \<and> fatal"
proof -
  have "\<not> is_cf_error x \<Longrightarrow> \<not> cf_fatal x" for x by (cases x) auto
  with assms show ?thesis
    by (auto simp: throw_def refusal_def bindR_Inl_iff bindR_Inr_iff
        dest: describe_no_cf first_code_no_cf split: sum.splits)
qed

lemma verify_result_Inr:
  "verify_result U reply = Inr res \<longleftrightarrow>
     (\<exists>r p s r0. reply = Answer r \<and> status_code r = 200 \<and> parse_json r = p
        \<and> jget p (lit ''success'') = Inr s \<and> truthy s \<and> jget p (lit ''result'') = Inr r0
        \<and> res = py_or r0 (JObj []) \<and> jget res (lit ''status'') = Inr (JStr (lit ''active'')))"
proof (cases reply)
  case (Answer r)
  have t: "jget (parse_json r) k = Inr s \<Longrightarrow> truthy s \<Longrightarrow> truthy (parse_json r)" for k s
    by (cases "parse_json r") auto
  show ?thesis
    using t by (auto simp: verify_result_def Answer Let_def bindR_Inr_iff
        simp del: lit_simps split: if_splits)
qed (simp add: verify_result_def)

lemma verify_result_fatal:
  assumes "verify_result U (Answer r) = Inl e"
  shows "cf_fatal e \<longleftrightarrow> is_cf_error e \<and> status_code r \<in> {401, 403}"
proof -
  have "throw (refusal U b a f (status_code r) p) = Inl e \<Longrightarrow> cf_fatal e \<longleftrightarrow> is_cf_error e \<and> f" for b a f p
    by (rule throw_refusal_fatal)
  with assms show ?thesis
    by (auto simp: verify_result_def Let_def bindR_Inl_iff jget_Inl_iff
        simp del: lit_simps split: if_splits)
qed

lemma verify_result_documented:
  assumes "documented r" and "verify_result U (Answer r) = Inl e"
  shows "is_cf_error e"
proof -
  have "throw (refusal U b a f s (parse_json r)) = (Inl e :: json py) \<Longrightarrow> is_cf_error e" for b a f s
    using throw_refusal_documented [of r U b a f s, where 'a = json] assms(1)
    by (auto simp: documented_def)
  moreover have "is_dict (py_or v (JObj []))" if "jget (parse_json r) (lit ''result'') = Inr v" for v
    using assms(1) that by (cases "parse_json r")
      (auto simp: documented_def result_object_def py_or_def simp del: lit_simps split: option.splits)
  moreover have "truthy (parse_json r) \<Longrightarrow> is_dict (parse_json r)"
    using parse_json_cases [of r] by auto
  ultimately show ?thesis
    using assms(2)
    by (auto simp: verify_result_def Let_def bindR_Inl_iff jget_Inl_iff
        simp del: lit_simps split: if_splits)
qed

section \<open>Properties\<close>

text \<open>
  C28. \<open>verify_token\<close> accepts exactly an active token: it returns \<open>res\<close> if and only if the
  answer is a 200 whose JSON object has a true \<open>success\<close> and whose \<open>result\<close> is \<open>res\<close>, with
  status \<open>active\<close>. A network failure is a non-fatal \<open>CloudflareEmailError\<close>; on an answer of
  the documented form every failure is a \<open>CloudflareEmailError\<close>, fatal exactly for 401 and
  403. It sends one GET and closes the session if and only if it made it itself.
\<close>

theorem verify_token_sound:
  "case verify_token U api_token owns reply of (evs, outcome) \<Rightarrow>
     length (filter is_HttpGet evs) = 1 \<and> (HttpClose \<in> set evs) = owns
     \<and> (outcome = Inr res) = (\<exists>r p s r0. reply = Answer r \<and> status_code r = 200 \<and> parse_json r = p
          \<and> jget p (lit ''success'') = Inr s \<and> truthy s \<and> jget p (lit ''result'') = Inr r0
          \<and> res = py_or r0 (JObj []) \<and> jget res (lit ''status'') = Inr (JStr (lit ''active'')))
     \<and> (case (reply, outcome) of
          (NetworkError t, Inl e) \<Rightarrow> is_cf_error e \<and> \<not> cf_fatal e
        | (NetworkError t, Inr x) \<Rightarrow> False
        | (Answer r, Inl e) \<Rightarrow>
            cf_fatal e = (is_cf_error e \<and> status_code r \<in> {401, 403})
            \<and> (if documented r then is_cf_error e else True)
        | (Answer r, Inr x) \<Rightarrow> True)"
proof (cases reply)
  case (Answer r)
  show ?thesis
    unfolding verify_token_def prod.case verify_result_Inr Answer
    using verify_result_fatal [of U r] verify_result_documented [of r U]
    by (auto simp del: lit_simps split: sum.splits)
qed (auto simp: verify_token_def verify_result_def cf_error_def)

end
