(* ===== verification/Session.thy ===== *)
theory Session
  imports Payload Http "HOL-Library.List_Lexorder"
begin

text \<open>
  \<open>CloudflareSendingSession\<close> of \<open>cloudflare_api.py\<close>, what \<open>connect()\<close> returns for a
  Cloudflare server: one message per \<open>send_message\<close>, up to three HTTP requests with a
  back-off between them, a credential error remembered so that the rest of a batch fails
  fast, and the per-recipient failures of an accepted request. The network is the parameter
  \<open>net\<close>: what it answers to the n-th request of the run.
\<close>

section \<open>Constants and state\<close>

definition SEND_URL :: "pystr \<Rightarrow> pystr" where
  "SEND_URL account_id = API_BASE @ lit ''/accounts/'' @ account_id @ lit ''/email/sending/send''"

definition MAX_BODY_BYTES :: nat where "MAX_BODY_BYTES = 5 * 1024 * 1024"

definition MAX_ATTEMPTS :: nat where "MAX_ATTEMPTS = 3"

definition MAX_RETRY_AFTER :: int where "MAX_RETRY_AFTER = 10"

record session =
  s_account :: pystr
  s_from_filter :: pystr
  s_smtp_from :: pystr
  s_server_name :: pystr
  send_url :: pystr
  s_headers :: "(pystr \<times> pystr) list"
  fatal_error :: "py_exc option"

text \<open>What the session does to the world: the requests it has sent so far and all its events.\<close>

record world =
  sent :: nat
  events :: "http_event list"

definition happen :: "http_event \<Rightarrow> world \<Rightarrow> world" where
  "happen ev w = w\<lparr>events := events w @ [ev]\<rparr>"

text \<open>\<open>CloudflareSendingSession(...)\<close>: no request is made.\<close>

definition new_session :: "pystr \<Rightarrow> pystr \<Rightarrow> pystr \<Rightarrow> pystr \<Rightarrow> pystr \<Rightarrow> session" where
  "new_session account_id api_token from_filter smtp_from mail_server_name =
     \<lparr>s_account = account_id, s_from_filter = from_filter, s_smtp_from = smtp_from,
      s_server_name = mail_server_name, send_url = SEND_URL account_id,
      s_headers = [(lit ''Authorization'', lit ''Bearer '' @ api_token),
                   (lit ''Content-Type'', lit ''application/json''),
                   (lit ''Accept'', lit ''application/json'')],
      fatal_error = None\<rparr>"

section \<open>_post\<close>

text \<open>What one attempt decides.\<close>

datatype verdict =
    Done json
  | Raise py_exc
  | Fatal py_exc
  | Retry py_exc int

text \<open>\<open>_retry_after(response) or 2**attempt\<close>: a zero header counts as absent.\<close>

definition retry_delay :: "interp \<Rightarrow> nat \<Rightarrow> response \<Rightarrow> int" where
  "retry_delay U attempt r =
     (case retry_after U r of
        None \<Rightarrow> 2 ^ attempt
      | Some d \<Rightarrow> if d \<noteq> 0 then d else 2 ^ attempt)"

definition success_result :: "json \<Rightarrow> json option py" where
  "success_result payload =
     (if \<not> truthy payload then Inr None
      else bindR (jget payload (lit ''success'')) (\<lambda>s.
        if truthy s then bindR (jget payload (lit ''result'')) (\<lambda>r. Inr (Some (py_or r (JObj []))))
        else Inr None))"

definition judge :: "interp \<Rightarrow> nat \<Rightarrow> reply \<Rightarrow> verdict" where
  "judge U attempt reply =
     (case reply of
        NetworkError t \<Rightarrow> Retry (cf_error (lit ''Could not reach Cloudflare: '' @ t)) (2 ^ (attempt - 1))
      | Answer r \<Rightarrow>
          let status = status_code r; payload = parse_json r in
          if status = 200 then
            (case success_result payload of
               Inl e \<Rightarrow> Raise e
             | Inr (Some res) \<Rightarrow> Done res
             | Inr None \<Rightarrow>
                 (case refusal U (lit ''Cloudflare answered '') (lit '' without success: true'')
                         False status payload of
                    Inl e \<Rightarrow> Raise e | Inr e \<Rightarrow> Raise e))
          else
            (case refusal U (lit ''Cloudflare refused the message: '') [] (status \<in> {401, 403})
                    status payload of
               Inl e \<Rightarrow> Raise e
             | Inr e \<Rightarrow>
                 if cf_fatal e then Fatal e
                 else if status = 429 then Retry e (retry_delay U attempt r)
                 else if 500 \<le> status then Retry e (2 ^ (attempt - 1))
                 else Raise e))"

text \<open>
  \<open>time.sleep\<close> raises on a negative delay: \<open>OverflowError\<close> when its nanoseconds do not fit
  64 bits, \<open>ValueError\<close> otherwise.
\<close>

definition sleep_error :: "int \<Rightarrow> py_exc" where
  "sleep_error d =
     (if d < - 9223372036 then OtherError (lit ''OverflowError'')
      else ValueError (lit ''sleep length must be non-negative''))"

definition giving_up :: "py_exc \<Rightarrow> py_exc" where
  "giving_up e =
     CloudflareEmailError
       (lit ''Giving up after '' @ dec_nat MAX_ATTEMPTS @ lit '' attempts: '' @ cf_message e)
       (cf_status e) (cf_code e) False"

definition post_event :: "session \<Rightarrow> bytes \<Rightarrow> http_event" where
  "post_event s body = HttpPost (send_url s) body (s_headers s) REQUEST_TIMEOUT"

definition request :: "session \<Rightarrow> bytes \<Rightarrow> world \<Rightarrow> world" where
  "request s body w = (happen (post_event s body) w)\<lparr>sent := Suc (sent w)\<rparr>"

fun post_loop ::
  "interp \<Rightarrow> (nat \<Rightarrow> reply) \<Rightarrow> bytes \<Rightarrow> session \<times> world \<Rightarrow> py_exc option \<Rightarrow> nat list
     \<Rightarrow> (session \<times> world) \<times> json py"
where
  "post_loop U net body (s, w) last_error [] =
     ((s, w), Inl (case last_error of None \<Rightarrow> AttributeError | Some e \<Rightarrow> giving_up e))"
| "post_loop U net body (s, w) last_error (attempt # attempts) =
     (let w1 = request s body w in
      case judge U attempt (net (sent w)) of
        Done res \<Rightarrow> ((s, w1), Inr res)
      | Raise e \<Rightarrow> ((s, w1), Inl e)
      | Fatal e \<Rightarrow> ((s\<lparr>fatal_error := Some e\<rparr>, w1), Inl e)
      | Retry e d \<Rightarrow>
          if attempt < MAX_ATTEMPTS then
            let delay = min d MAX_RETRY_AFTER in
            if delay < 0 then ((s, w1), Inl (sleep_error delay))
            else post_loop U net body (s, happen (Sleep delay) w1) (Some e) attempts
          else post_loop U net body (s, w1) (Some e) attempts)"

definition post :: "interp \<Rightarrow> (nat \<Rightarrow> reply) \<Rightarrow> bytes \<Rightarrow> session \<times> world \<Rightarrow> (session \<times> world) \<times> json py" where
  "post U net body sw = post_loop U net body sw None [1..<Suc MAX_ATTEMPTS]"

section \<open>_check_recipients\<close>

text \<open>\<open>{address.lower() for address in xs}\<close>: only strings have \<open>lower\<close>.\<close>

fun lower_py :: "interp \<Rightarrow> json \<Rightarrow> pystr py" where
  "lower_py U (JStr s) = Inr (lower U s)"
| "lower_py U _ = Inl AttributeError"

definition lower_set :: "interp \<Rightarrow> json \<Rightarrow> string \<Rightarrow> pystr list py" where
  "lower_set U res field =
     bindR (jget res (lit field)) (\<lambda>v.
     bindR (py_iter (py_or v (JArr []))) (\<lambda>xs. bindR (traverse (lower_py U) xs) (\<lambda>as. Inr (remdups as))))"

definition failure_detail :: "interp \<Rightarrow> pystr list \<Rightarrow> pystr list \<Rightarrow> pystr" where
  "failure_detail U bounced suppressed =
     lit ''permanently bounced: '' @ py_str U (JArr (map JStr (sort bounced)))
     @ lit ''; suppressed: '' @ py_str U (JArr (map JStr (sort suppressed)))"

text \<open>The result is the warning to log, if any.\<close>

definition check_recipients :: "interp \<Rightarrow> json \<Rightarrow> payload \<Rightarrow> (json \<times> pystr) option py" where
  "check_recipients U res p =
     (let recipients = map (addr_key U) (payload_recipients p) in
      bindR (lower_set U res ''permanent_bounces'') (\<lambda>bounced.
      bindR (lower_set U res ''suppressed_recipients'') (\<lambda>suppressed.
        let failed = set bounced \<union> set suppressed in
        if failed = {} then Inr None
        else
          bindR (jget res (lit ''delivered'')) (\<lambda>d.
          bindR (jget res (lit ''queued'')) (\<lambda>q.
          bindR (py_plus U (py_or d (JArr [])) (py_or q (JArr []))) (\<lambda>reached.
            let detail = failure_detail U bounced suppressed in
            if set recipients \<subseteq> failed \<or> \<not> truthy reached then
              Inl (cf_error (lit ''No recipient could be reached ('' @ detail @ lit '').''))
            else bindR (jget res (lit ''message_id'')) (\<lambda>i. Inr (Some (i, detail)))))))))"

section \<open>send_message, quit, close\<close>

text \<open>\<open>f"{n / 1024 / 1024:.1f}"\<close>: the quotient is exact, and rounds half to even.\<close>

definition mib_text :: "nat \<Rightarrow> pystr" where
  "mib_text n =
     (let q = 10 * n div 1048576; r = 10 * n mod 1048576;
          t = (if 524288 < r \<or> r = 524288 \<and> odd q then q + 1 else q) in
      dec_nat (t div 10) @ lit ''.'' @ dec_nat (t mod 10))"

definition too_big_message :: "nat \<Rightarrow> pystr" where
  "too_big_message n =
     lit ''Message is '' @ mib_text n @ lit '' MiB once encoded; Cloudflare accepts at most ''
     @ dec_nat (MAX_BODY_BYTES div 1024 div 1024) @ lit '' MiB.''"

definition not_retried :: "py_exc \<Rightarrow> py_exc" where
  "not_retried e =
     CloudflareEmailError
       (lit ''Not retried: an earlier send in this batch failed with '' @ cf_message e)
       (cf_status e) (cf_code e) True"

text \<open>A call's arguments: the message, \<open>smtp_from\<close> (unused) and \<open>smtp_to_list\<close>.\<close>

record send_call =
  c_message :: message
  c_smtp_from :: pystr
  c_smtp_to :: "pystr list"

definition request_body :: "mail_env \<Rightarrow> send_call \<Rightarrow> (payload \<times> bytes) py" where
  "request_body E c =
     bindR (build_payload E (c_message c) (c_smtp_to c)) (\<lambda>p.
     bindR (encode_py (dumps (payload_json p))) (\<lambda>body. Inr (p, body)))"

definition finish_send :: "interp \<Rightarrow> payload \<Rightarrow> session \<times> world \<Rightarrow> json \<Rightarrow> (session \<times> world) \<times> json py" where
  "finish_send U p sw res =
     (case check_recipients U res p of
        Inl e \<Rightarrow> (sw, Inl e)
      | Inr warning \<Rightarrow>
          (case warning of None \<Rightarrow> sw
           | Some (i, detail) \<Rightarrow> (fst sw, happen (LogWarning i detail) (snd sw)),
           bindR (jget res (lit ''message_id'')) (\<lambda>i. Inr (py_or i (JStr [])))))"

definition send_message ::
  "mail_env \<Rightarrow> (nat \<Rightarrow> reply) \<Rightarrow> session \<times> world \<Rightarrow> send_call \<Rightarrow> (session \<times> world) \<times> json py"
where
  "send_message E net sw c =
     (case fatal_error (fst sw) of
        Some e \<Rightarrow> (sw, Inl (not_retried e))
      | None \<Rightarrow>
          (case request_body E c of
             Inl e \<Rightarrow> (sw, Inl e)
           | Inr (p, body) \<Rightarrow>
               if MAX_BODY_BYTES < length body then (sw, Inl (cf_error (too_big_message (length body))))
               else
                 (case post (env_interp E) net body sw of
                    (sw1, Inl e) \<Rightarrow> (sw1, Inl e)
                  | (sw1, Inr res) \<Rightarrow> finish_send (env_interp E) p sw1 res)))"

definition close :: "session \<times> world \<Rightarrow> session \<times> world" where
  "close sw = (fst sw, happen HttpClose (snd sw))"

definition quit :: "session \<times> world \<Rightarrow> session \<times> world" where
  "quit sw = close sw"

section \<open>One attempt\<close>

lemma refusal_inv:
  assumes "refusal U before after fatal status payload = Inr e"
  shows "is_cf_error e" "cf_status e = Some status" "cf_fatal e = fatal"
  using refusal_status [OF assms] by auto

lemma success_result_Some:
  "success_result payload = Inr (Some res) \<longleftrightarrow>
     (\<exists>s r. jget payload (lit ''success'') = Inr s \<and> truthy s
        \<and> jget payload (lit ''result'') = Inr r \<and> res = py_or r (JObj []))"
  by (cases payload) (auto simp: success_result_def simp del: lit_simps)

lemma judge_Done:
  "judge U a reply = Done res \<longleftrightarrow>
     (\<exists>r. reply = Answer r \<and> status_code r = 200 \<and> success_result (parse_json r) = Inr (Some res))"
  by (cases reply) (auto simp: judge_def Let_def simp del: lit_simps
      split: sum.splits option.splits if_splits)

lemma judge_Fatal:
  assumes "judge U a reply = Fatal e"
  shows "is_cf_error e \<and> cf_fatal e \<and> (\<exists>r. reply = Answer r \<and> status_code r \<in> {401, 403})
    \<and> cf_status e \<in> {Some 401, Some 403}"
proof (cases reply)
  case (Answer r)
  let ?f = "status_code r \<in> {401, 403}"
  from assms have r: "refusal U (lit ''Cloudflare refused the message: '') [] ?f (status_code r) (parse_json r) = Inr e"
    and e: "cf_fatal e"
    by (auto simp: judge_def Answer Let_def simp del: lit_simps split: sum.splits option.splits if_splits)
  from refusal_inv [OF r] e show ?thesis by (auto simp: Answer)
qed (use assms in \<open>simp add: judge_def\<close>)

lemma judge_Retry:
  assumes "judge U a reply = Retry e d"
  shows "is_cf_error e \<and> \<not> cf_fatal e
    \<and> (case reply of NetworkError t \<Rightarrow> cf_status e = None \<and> d = 2 ^ (a - 1)
       | Answer r \<Rightarrow> cf_status e = Some (status_code r)
           \<and> (status_code r = 429 \<and> d = retry_delay U a r \<or> 500 \<le> status_code r \<and> d = 2 ^ (a - 1)))"
proof (cases reply)
  case (Answer r)
  let ?f = "status_code r \<in> {401, 403}"
  from assms have r: "refusal U (lit ''Cloudflare refused the message: '') [] ?f (status_code r) (parse_json r) = Inr e"
    and e: "\<not> cf_fatal e"
      "status_code r = 429 \<and> d = retry_delay U a r \<or> 500 \<le> status_code r \<and> d = 2 ^ (a - 1)"
    by (auto simp: judge_def Answer Let_def simp del: lit_simps split: sum.splits option.splits if_splits)
  from refusal_inv [OF r] e show ?thesis by (auto simp: Answer)
qed (use assms in \<open>auto simp: judge_def\<close>)

text \<open>On an error body of the documented form the retry matrix is a function of the status.\<close>

lemma judge_documented:
  assumes "errors_list (parse_json r)"
  shows "\<exists>m c. judge U a (Answer r) =
    (let st = status_code r; e = CloudflareEmailError m (Some st) c (st \<in> {401, 403}) in
     if st = 200 then
       (case success_result (parse_json r) of Inr (Some res) \<Rightarrow> Done res | _ \<Rightarrow> Raise e)
     else if st \<in> {401, 403} then Fatal e
     else if st = 429 then Retry e (retry_delay U a r)
     else if 500 \<le> st then Retry e (2 ^ (a - 1))
     else Raise e)"
proof -
  note ref = refusal_list [OF assms parse_json_cases, of U]
  have suc: "\<exists>v. success_result (parse_json r) = Inr v"
    using parse_json_cases [of r] by (cases "parse_json r") (auto simp: success_result_def)
  show ?thesis
  proof (cases "status_code r = 200")
    case True
    with ref [of "lit ''Cloudflare answered ''" "lit '' without success: true''" False 200] suc
    show ?thesis by (auto simp: judge_def Let_def simp del: lit_simps split: option.splits)
  next
    case False
    let ?f = "status_code r \<in> {401, 403}"
    obtain m c where r: "refusal U (lit ''Cloudflare refused the message: '') [] ?f (status_code r) (parse_json r)
        = Inr (CloudflareEmailError m (Some (status_code r)) c ?f)"
      using ref by blast
    show ?thesis
      unfolding judge_def Let_def reply.case r sum.case cf_fatal.simps
      using False by auto
  qed
qed

section \<open>The attempts of one request\<close>

text \<open>
  The list of attempts that is left: not empty, and only its last is the last allowed one.
\<close>

definition attempts_left :: "nat list \<Rightarrow> bool" where
  "attempts_left as \<longleftrightarrow> as \<noteq> [] \<and> last as = MAX_ATTEMPTS \<and> (\<forall>a \<in> set (butlast as). a < MAX_ATTEMPTS)"

lemma attempts_left_Cons:
  "attempts_left (a # as) \<Longrightarrow> (if as = [] then a = MAX_ATTEMPTS else a < MAX_ATTEMPTS \<and> attempts_left as)"
  by (auto simp: attempts_left_def split: if_splits)

text \<open>What the world sees of a request that is sent once and then once after each delay.\<close>

definition trace :: "http_event \<Rightarrow> int list \<Rightarrow> http_event list" where
  "trace ev ds = ev # concat (map (\<lambda>d. [Sleep d, ev]) ds)"

definition delays_ok :: "int list \<Rightarrow> bool" where
  "delays_ok ds \<longleftrightarrow> (\<forall>d \<in> set ds. 0 \<le> d \<and> d \<le> MAX_RETRY_AFTER)"

lemma request_simps [simp]:
  "sent (request s body w) = Suc (sent w)" "events (request s body w) = events w @ [post_event s body]"
  "sent (happen ev w) = sent w" "events (happen ev w) = events w @ [ev]"
  by (simp_all add: request_def happen_def)

lemma post_loop_trace:
  assumes "attempts_left as" and "post_loop U net body (s, w) last_error as = ((s1, w1), r)"
  shows "\<exists>ds. length ds < length as \<and> delays_ok ds
    \<and> events w1 = events w @ trace (post_event s body) ds \<and> sent w1 = sent w + Suc (length ds)
    \<and> (s1 = s \<or> (\<exists>e. r = Inl e \<and> s1 = s\<lparr>fatal_error := Some e\<rparr> \<and> is_cf_error e \<and> cf_fatal e
                   \<and> cf_status e \<in> {Some 401, Some 403}))"
  using assms
proof (induction as arbitrary: w last_error)
  case Nil
  then show ?case by (simp add: attempts_left_def)
next
  case (Cons a as)
  note left = attempts_left_Cons [OF Cons.prems(1)]
  let ?j = "judge U a (net (sent w))"
  show ?case
  proof (cases "\<exists>e d. ?j = Retry e d \<and> 0 \<le> d \<and> a < MAX_ATTEMPTS")
    case False
    then show ?thesis
      using Cons.prems left judge_Fatal [of U a "net (sent w)"]
      by (intro exI [of _ "[]"])
         (auto simp: Let_def trace_def delays_ok_def MAX_RETRY_AFTER_def split: verdict.splits if_splits)
  next
    case True
    then obtain e d where j: "?j = Retry e d" "0 \<le> d" "a < MAX_ATTEMPTS" by blast
    let ?d = "min d MAX_RETRY_AFTER"
    have d: "0 \<le> ?d" using j(2) by (simp add: MAX_RETRY_AFTER_def)
    have "as \<noteq> []" "attempts_left as" using left j(3) by (auto split: if_splits)
    moreover have "post_loop U net body (s, happen (Sleep ?d) (request s body w)) (Some e) as = ((s1, w1), r)"
      using Cons.prems(2) j d by (simp add: Let_def)
    ultimately obtain ds where ds: "length ds < length as" "delays_ok ds"
      "events w1 = events w @ [post_event s body, Sleep ?d] @ trace (post_event s body) ds"
      "sent w1 = Suc (sent w) + Suc (length ds)"
      "s1 = s \<or> (\<exists>e. r = Inl e \<and> s1 = s\<lparr>fatal_error := Some e\<rparr> \<and> is_cf_error e \<and> cf_fatal e
                   \<and> cf_status e \<in> {Some 401, Some 403})"
      using Cons.IH [of "happen (Sleep ?d) (request s body w)" "Some e"] by auto
    with d show ?thesis
      by (intro exI [of _ "?d # ds"]) (simp add: trace_def delays_ok_def)
  qed
qed

lemma attempts_upt: "[1..<Suc MAX_ATTEMPTS] = [1, 2, 3]"
  by (simp add: MAX_ATTEMPTS_def upt_rec)

lemma post_trace:
  assumes "post U net body (s, w) = ((s1, w1), r)"
  obtains ds where "length ds \<le> 2" "delays_ok ds"
    "events w1 = events w @ trace (post_event s body) ds" "sent w1 = sent w + Suc (length ds)"
    "s1 = s \<or> (\<exists>e. r = Inl e \<and> s1 = s\<lparr>fatal_error := Some e\<rparr> \<and> is_cf_error e \<and> cf_fatal e
                   \<and> cf_status e \<in> {Some 401, Some 403})"
proof -
  have "attempts_left [1, 2, 3]" by (auto simp: attempts_left_def MAX_ATTEMPTS_def)
  moreover have "post_loop U net body (s, w) None [1, 2, 3] = ((s1, w1), r)"
    using assms by (simp only: post_def attempts_upt)
  ultimately obtain ds where "length ds < length [1, 2, 3 :: nat]" "delays_ok ds"
    "events w1 = events w @ trace (post_event s body) ds" "sent w1 = sent w + Suc (length ds)"
    "s1 = s \<or> (\<exists>e. r = Inl e \<and> s1 = s\<lparr>fatal_error := Some e\<rparr> \<and> is_cf_error e \<and> cf_fatal e
                   \<and> cf_status e \<in> {Some 401, Some 403})"
    using post_loop_trace by blast
  with that show thesis by simp
qed

section \<open>What a request comes to\<close>

text \<open>The first k requests are answered in a way that is retried.\<close>

definition keeps_trying :: "interp \<Rightarrow> (nat \<Rightarrow> reply) \<Rightarrow> nat \<Rightarrow> nat \<Rightarrow> bool" where
  "keeps_trying U net n k \<longleftrightarrow>
     (\<forall>i \<in> set [0..<k]. case judge U (Suc i) (net (n + i)) of Retry e d \<Rightarrow> 0 \<le> d | _ \<Rightarrow> False)"

lemma keeps_trying_0 [simp]: "keeps_trying U net n 0"
  by (simp add: keeps_trying_def)

lemma keeps_trying_Suc [simp]:
  "keeps_trying U net n (Suc k) \<longleftrightarrow>
     keeps_trying U net n k \<and> (case judge U (Suc k) (net (n + k)) of Retry e d \<Rightarrow> 0 \<le> d | _ \<Rightarrow> False)"
  by (auto simp: keeps_trying_def)

lemma min_delay_neg: "min d MAX_RETRY_AFTER < 0 \<longleftrightarrow> d < 0"
  by (simp add: MAX_RETRY_AFTER_def min_def)

lemma post_unfold:
  "post U net body (s, w) =
     (let w1 = request s body w;
          stop = (\<lambda>v w'. case v of Done res \<Rightarrow> ((s, w'), Inr res) | Raise e \<Rightarrow> ((s, w'), Inl e)
                  | Fatal e \<Rightarrow> ((s\<lparr>fatal_error := Some e\<rparr>, w'), Inl e)
                  | Retry e d \<Rightarrow> ((s, w'), Inl (sleep_error (min d MAX_RETRY_AFTER))));
          again = (\<lambda>v. case v of Retry e d \<Rightarrow> 0 \<le> d | _ \<Rightarrow> False);
          next_world = (\<lambda>v w'. case v of Retry e d \<Rightarrow>
                         request s body (happen (Sleep (min d MAX_RETRY_AFTER)) w') | _ \<Rightarrow> w');
          v1 = judge U 1 (net (sent w)); v2 = judge U 2 (net (sent w + 1));
          v3 = judge U 3 (net (sent w + 2)) in
      if \<not> again v1 then stop v1 w1
      else let w2 = next_world v1 w1 in
        if \<not> again v2 then stop v2 w2
        else let w3 = next_world v2 w2 in
          case v3 of Retry e d \<Rightarrow> ((s, w3), Inl (giving_up e)) | _ \<Rightarrow> stop v3 w3)"
  unfolding post_def attempts_upt
  by (simp add: Let_def MAX_ATTEMPTS_def min_delay_neg not_less split: verdict.split)

lemma lt3: "(\<exists>k < (3 :: nat). P k) \<longleftrightarrow> P 0 \<or> P 1 \<or> P 2"
  by (auto simp: less_Suc_eq numeral_3_eq_3 numeral_2_eq_2)

lemma post_succeeds:
  "snd (post U net body (s, w)) = Inr res \<longleftrightarrow>
     (\<exists>k < MAX_ATTEMPTS. keeps_trying U net (sent w) k \<and> judge U (Suc k) (net (sent w + k)) = Done res)"
  unfolding post_unfold MAX_ATTEMPTS_def lt3
  by (simp add: Let_def numeral_2_eq_2 numeral_3_eq_3 split: verdict.split)

lemma post_dead:
  "fatal_error (fst (fst (post U net body (s, w)))) \<noteq> fatal_error s \<Longrightarrow>
     \<exists>k < MAX_ATTEMPTS. \<exists>e. keeps_trying U net (sent w) k \<and> judge U (Suc k) (net (sent w + k)) = Fatal e"
  unfolding post_unfold MAX_ATTEMPTS_def lt3
  by (auto simp: Let_def numeral_2_eq_2 numeral_3_eq_3 split: verdict.splits if_splits)

lemma post_gives_up:
  assumes "keeps_trying U net (sent w) 2" and "judge U 3 (net (sent w + 2)) = Retry e d"
  shows "snd (post U net body (s, w)) = Inl (giving_up e)" "fst (fst (post U net body (s, w))) = s"
  using assms unfolding post_unfold
  by (auto simp: Let_def numeral_2_eq_2 split: verdict.splits)

text \<open>
  The same without a loop: how many answers are retried decides which answer is final, and
  everything the request does follows from the list of the verdicts.
\<close>

definition retried :: "verdict \<Rightarrow> bool" where
  "retried v \<longleftrightarrow> (case v of Retry e d \<Rightarrow> 0 \<le> d | _ \<Rightarrow> False)"

definition pause :: "verdict \<Rightarrow> int" where
  "pause v = (case v of Retry e d \<Rightarrow> min d MAX_RETRY_AFTER | _ \<Rightarrow> 0)"

definition post_reference ::
  "interp \<Rightarrow> (nat \<Rightarrow> reply) \<Rightarrow> bytes \<Rightarrow> session \<times> world \<Rightarrow> (session \<times> world) \<times> json py"
where
  "post_reference U net body sw =
     (let (s, w) = sw;
          verdicts = map (\<lambda>k. judge U (Suc k) (net (sent w + k))) [0..<MAX_ATTEMPTS];
          retries = length (takeWhile retried (butlast verdicts));
          w' = w\<lparr>sent := sent w + retries + 1,
                 events := events w @ trace (post_event s body) (map pause (take retries verdicts))\<rparr>
      in
      case verdicts ! retries of
        Done res \<Rightarrow> ((s, w'), Inr res)
      | Raise e \<Rightarrow> ((s, w'), Inl e)
      | Fatal e \<Rightarrow> ((s\<lparr>fatal_error := Some e\<rparr>, w'), Inl e)
      | Retry e d \<Rightarrow>
          ((s, w'), Inl (if Suc retries = MAX_ATTEMPTS then giving_up e else sleep_error (pause (Retry e d)))))"

lemma first_three: "map f [0..<MAX_ATTEMPTS] = [f 0, f 1, f (2 :: nat)]"
  by (simp add: MAX_ATTEMPTS_def upt_rec numeral_2_eq_2)

section \<open>What a send does\<close>

lemma finish_send_effect:
  assumes "finish_send U p (s, w) res = ((s1, w1), r)"
  shows "s1 = s \<and> sent w1 = sent w
    \<and> (events w1 = events w \<or> (\<exists>i t. events w1 = events w @ [LogWarning i t]))"
  using assms by (auto simp: finish_send_def split: sum.splits option.splits)

text \<open>A send either touches nothing and raises, or makes one bounded series of requests.\<close>

definition effect :: "mail_env \<Rightarrow> session \<Rightarrow> send_call \<Rightarrow> http_event list \<Rightarrow> bool" where
  "effect E s c evs \<longleftrightarrow>
     (\<exists>p body ds logs. request_body E c = Inr (p, body) \<and> length body \<le> MAX_BODY_BYTES
        \<and> length ds \<le> 2 \<and> delays_ok ds \<and> evs = trace (post_event s body) ds @ logs
        \<and> (logs = [] \<or> (\<exists>i t. logs = [LogWarning i t])))"

definition credential_error :: "py_exc \<Rightarrow> bool" where
  "credential_error e \<longleftrightarrow> is_cf_error e \<and> cf_fatal e \<and> cf_status e \<in> {Some 401, Some 403}"

lemma send_message_effect:
  assumes "send_message E net (s, w) c = ((s1, w1), r)"
  shows "(s1 = s \<and> w1 = w \<and> (\<exists>e. r = Inl e))
    \<or> (fatal_error s = None \<and> (\<exists>evs. effect E s c evs \<and> events w1 = events w @ evs
          \<and> sent w1 = sent w + length (filter is_HttpPost evs))
       \<and> (s1 = s \<or> (\<exists>e. r = Inl e \<and> s1 = s\<lparr>fatal_error := Some e\<rparr> \<and> credential_error e)))"
proof (cases "fatal_error s = None \<and> (\<exists>p body. request_body E c = Inr (p, body) \<and> length body \<le> MAX_BODY_BYTES)")
  case False
  with assms show ?thesis
    by (auto simp: send_message_def split: option.splits sum.splits prod.splits if_splits)
next
  case True
  then obtain p body where f: "fatal_error s = None" and b: "request_body E c = Inr (p, body)"
    "length body \<le> MAX_BODY_BYTES" by blast
  obtain s2 w2 r2 where p: "post (env_interp E) net body (s, w) = ((s2, w2), r2)"
    by (metis surj_pair)
  from p obtain ds where ds: "length ds \<le> 2" "delays_ok ds"
    "events w2 = events w @ trace (post_event s body) ds" "sent w2 = sent w + Suc (length ds)"
    "s2 = s \<or> (\<exists>e. r2 = Inl e \<and> s2 = s\<lparr>fatal_error := Some e\<rparr> \<and> credential_error e)"
    unfolding credential_error_def by (rule post_trace)
  have n: "length (filter is_HttpPost (trace (post_event s body) ds)) = Suc (length ds)"
    by (induction ds) (simp_all add: trace_def post_event_def)
  have m: "send_message E net (s, w) c = (case r2 of Inl e \<Rightarrow> ((s2, w2), Inl e)
      | Inr res \<Rightarrow> finish_send (env_interp E) p (s2, w2) res)"
    using f b p by (auto simp: send_message_def split: sum.splits)
  have eff: "effect E s c (trace (post_event s body) ds @ logs)"
    if "logs = [] \<or> (\<exists>i t. logs = [LogWarning i t])" for logs
    using b ds that unfolding effect_def by blast
  show ?thesis
  proof (cases r2)
    case (Inl e)
    with m assms ds f n eff [of "[]"] show ?thesis by auto
  next
    case (Inr res)
    with ds(5) have "s2 = s" by auto
    with Inr m assms have "finish_send (env_interp E) p (s, w2) res = ((s1, w1), r)" by simp
    note fin = finish_send_effect [OF this]
    show ?thesis
    proof (cases "events w1 = events w2")
      case True
      with fin ds f n eff [of "[]"] show ?thesis by auto
    next
      case False
      with fin obtain i t where "events w1 = events w2 @ [LogWarning i t]" by auto
      with fin ds f n eff [of "[LogWarning i t]"] show ?thesis by auto
    qed
  qed
qed

section \<open>Batches: the contracts of send_message\<close>

lemma send_message_dead:
  "fatal_error (fst sw) = Some e \<Longrightarrow> send_message E net sw c = (sw, Inl (not_retried e))"
  by (simp add: send_message_def)

definition refused :: "session \<times> world \<Rightarrow> json py \<Rightarrow> bool" where
  "refused sw r \<longleftrightarrow> (case fatal_error (fst sw) of None \<Rightarrow> False | Some e \<Rightarrow> r = Inl (not_retried e))"

interpretation batch: fail_fast "send_message E net" "\<lambda>sw. fatal_error (fst sw) \<noteq> None" refused for E net
  by unfold_locales (auto simp: send_message_dead refused_def)

text \<open>Requests of this session and nothing else: its URL and headers, bounded bodies and delays.\<close>

definition event_ok :: "session \<Rightarrow> http_event \<Rightarrow> bool" where
  "event_ok s0 ev =
     (case ev of
        HttpPost url body hs t \<Rightarrow>
          url = send_url s0 \<and> hs = s_headers s0 \<and> t = REQUEST_TIMEOUT \<and> length body \<le> MAX_BODY_BYTES
      | Sleep d \<Rightarrow> 0 \<le> d \<and> d \<le> MAX_RETRY_AFTER
      | LogWarning i t \<Rightarrow> True
      | _ \<Rightarrow> False)"

definition session_inv :: "session \<Rightarrow> session \<times> world \<Rightarrow> bool" where
  "session_inv s0 sw \<longleftrightarrow>
     (\<forall>ev \<in> set (events (snd sw)). event_ok s0 ev)
     \<and> (fst sw)\<lparr>fatal_error := None\<rparr> = s0\<lparr>fatal_error := None\<rparr>
     \<and> (case fatal_error (fst sw) of None \<Rightarrow> True | Some e \<Rightarrow> credential_error e)"

lemma same_requests:
  assumes "(s :: session)\<lparr>fatal_error := None\<rparr> = s0\<lparr>fatal_error := None\<rparr>"
  shows "send_url s = send_url s0" "s_headers s = s_headers s0"
  using arg_cong [OF assms, of send_url] arg_cong [OF assms, of s_headers] by simp_all

lemma effect_ok:
  assumes "effect E s c evs" and "(s :: session)\<lparr>fatal_error := None\<rparr> = s0\<lparr>fatal_error := None\<rparr>"
    and "ev \<in> set evs"
  shows "event_ok s0 ev"
  using assms(1,3) same_requests [OF assms(2)]
  by (auto simp: effect_def trace_def event_ok_def post_event_def delays_ok_def)

lemma send_message_keeps: "session_inv s0 sw \<Longrightarrow> session_inv s0 (fst (send_message E net sw c))"
proof -
  assume inv: "session_inv s0 sw"
  obtain s w s1 w1 r where sw: "sw = (s, w)" and m: "send_message E net (s, w) c = ((s1, w1), r)"
    by (metis surj_pair)
  from send_message_effect [OF m] show ?thesis
  proof (elim disjE)
    assume "s1 = s \<and> w1 = w \<and> (\<exists>e. r = Inl e)"
    with inv show ?thesis by (simp add: sw m)
  next
    assume "fatal_error s = None \<and> (\<exists>evs. effect E s c evs \<and> events w1 = events w @ evs
          \<and> sent w1 = sent w + length (filter is_HttpPost evs))
       \<and> (s1 = s \<or> (\<exists>e. r = Inl e \<and> s1 = s\<lparr>fatal_error := Some e\<rparr> \<and> credential_error e))"
    then obtain evs where e: "effect E s c evs" "events w1 = events w @ evs"
      and s1: "s1 = s \<or> (\<exists>e. s1 = s\<lparr>fatal_error := Some e\<rparr> \<and> credential_error e)" by blast
    have "\<forall>ev \<in> set evs. event_ok s0 ev"
      using effect_ok [OF e(1)] inv by (auto simp: session_inv_def sw)
    with e(2) s1 inv show ?thesis by (auto simp: session_inv_def sw m)
  qed
qed

interpretation batch_inv: step_invariant "send_message E net" "session_inv s0" "\<lambda>c. True" for E net s0
  by unfold_locales (rule send_message_keeps)

lemma effect_posts: "effect E s c evs \<Longrightarrow> length (filter is_HttpPost evs) \<le> MAX_ATTEMPTS"
proof -
  have "length (filter is_HttpPost (trace (post_event s body) ds)) = Suc (length ds)" for body ds
    by (induction ds) (simp_all add: trace_def post_event_def)
  then show "effect E s c evs \<Longrightarrow> ?thesis"
    by (auto simp: effect_def MAX_ATTEMPTS_def)
qed

interpretation batch_cost: step_cost "send_message E net" "\<lambda>sw. sent (snd sw)" MAX_ATTEMPTS for E net
proof
  fix sw c
  obtain s w s1 w1 r where sw: "sw = (s, w)" and m: "send_message E net (s, w) c = ((s1, w1), r)"
    by (metis surj_pair)
  from send_message_effect [OF m] effect_posts [of E s c]
  show "sent (snd (fst (send_message E net sw c))) \<le> sent (snd sw) + MAX_ATTEMPTS"
    by (auto simp: sw m)
qed

text \<open>The log of the world only grows.\<close>

definition log_le :: "session \<times> world \<Rightarrow> session \<times> world \<Rightarrow> bool" where
  "log_le sw sw' \<longleftrightarrow> prefix (events (snd sw)) (events (snd sw')) \<and> sent (snd sw) \<le> sent (snd sw')
     \<and> (fatal_error (fst sw) \<noteq> None \<longrightarrow> sw' = sw)"

interpretation batch_log: step_progress "send_message E net" log_le for E net
proof
  fix s t u sw c
  show "log_le s s" by (simp add: log_le_def)
  show "log_le s t \<Longrightarrow> log_le t u \<Longrightarrow> log_le s u" by (auto simp: log_le_def)
  obtain s w s1 w1 r where sw: "sw = (s, w)" and m: "send_message E net (s, w) c = ((s1, w1), r)"
    by (metis surj_pair)
  from send_message_effect [OF m] show "log_le sw (fst (send_message E net sw c))"
    by (auto simp: sw m log_le_def)
qed

lemma new_session_batch:
  assumes "run_steps (send_message E net) (new_session acct token ff sf name, \<lparr>sent = 0, events = []\<rparr>) calls = ((s, w), rs)"
  shows "\<forall>ev \<in> set (events w). event_ok (new_session acct token ff sf name) ev" "sent w \<le> 3 * length calls"
proof -
  let ?s0 = "new_session acct token ff sf name"
  let ?sw0 = "(?s0, \<lparr>sent = 0, events = []\<rparr>) :: session \<times> world"
  have "session_inv ?s0 ?sw0" by (simp add: session_inv_def new_session_def)
  from batch_inv.run_keeps [OF this, of calls E net] batch_cost.run_cost [of E net ?sw0 calls]
  show "\<forall>ev \<in> set (events w). event_ok ?s0 ev" "sent w \<le> 3 * length calls"
    by (simp_all add: assms session_inv_def MAX_ATTEMPTS_def list_all_iff)
qed

section \<open>Per-recipient failures\<close>

lemma check_recipients_Inr:
  assumes "check_recipients U res p = Inr wn"
  obtains b sp where "lower_set U res ''permanent_bounces'' = Inr b"
    "lower_set U res ''suppressed_recipients'' = Inr sp"
    "set b \<union> set sp = {} \<or> \<not> addr_key U ` set (payload_recipients p) \<subseteq> set b \<union> set sp"
    "(wn = None) = (set b \<union> set sp = {})"
  using assms
  by (auto simp: check_recipients_def Let_def bindR_Inr_iff simp del: lit_simps split: if_splits)

lemma send_message_Inr:
  assumes "snd (send_message E net (s, w) c) = Inr i"
  obtains p body res wn where "fatal_error s = None" "request_body E c = Inr (p, body)"
    "length body \<le> MAX_BODY_BYTES" "snd (post (env_interp E) net body (s, w)) = Inr res"
    "check_recipients (env_interp E) res p = Inr wn"
proof -
  from assms obtain p body where 1: "fatal_error s = None" "request_body E c = Inr (p, body)"
    "length body \<le> MAX_BODY_BYTES"
    by (auto simp: send_message_def split: option.splits sum.splits prod.splits if_splits)
  obtain s2 w2 r2 where p: "post (env_interp E) net body (s, w) = ((s2, w2), r2)"
    by (metis surj_pair)
  have "snd (case r2 of Inl e \<Rightarrow> ((s2, w2), Inl e) | Inr res \<Rightarrow> finish_send (env_interp E) p (s2, w2) res) = Inr i"
    using assms 1 p by (auto simp: send_message_def split: sum.splits)
  then obtain res wn where "r2 = Inr res" "check_recipients (env_interp E) res p = Inr wn"
    by (auto simp: finish_send_def split: sum.splits)
  with 1 p that show thesis by simp
qed

lemma request_body_Inr:
  assumes "request_body E c = Inr (p, body)"
  shows "build_payload E (c_message c) (c_smtp_to c) = Inr p" "encode (dumps (payload_json p)) = Some body"
  using assms by (auto simp: request_body_def bindR_Inr_iff encode_py_Inr_iff)

section \<open>Properties\<close>

text \<open>
  C6. A send either raises without touching the network, or posts the UTF-8 of its JSON
  payload, at most 5 MiB long, at most three times with the session's own URL and headers and
  with one pause between 0 and 10 seconds before each repetition, and then at most logs one
  warning. The session changes in one way only: it remembers a 401 or 403 error, and that
  error is the outcome of the send.
\<close>

theorem send_message_bounded:
  "case send_message E net (s, w) c of ((s1, w1), r) \<Rightarrow>
     (s1 = s \<and> w1 = w \<and> (\<exists>e. r = Inl e))
     \<or> (fatal_error s = None \<and> (\<exists>evs. effect E s c evs \<and> events w1 = events w @ evs
          \<and> sent w1 = sent w + length (filter is_HttpPost evs))
       \<and> (s1 = s \<or> (\<exists>e. r = Inl e \<and> s1 = s\<lparr>fatal_error := Some e\<rparr> \<and> credential_error e)))"
  using send_message_effect [of E net s w c] by (auto split: prod.splits)

text \<open>
  A request succeeds if and only if one of the first three answers is a 200 with a true
  \<open>success\<close> and every answer before it was one that is retried; the result is that answer's
  \<open>result\<close> object.
\<close>

theorem post_succeeds_iff:
  "snd (post U net body (s, w)) = Inr res \<longleftrightarrow>
     (\<exists>k < MAX_ATTEMPTS. keeps_trying U net (sent w) k
        \<and> (\<exists>r. net (sent w + k) = Answer r \<and> status_code r = 200
             \<and> success_result (parse_json r) = Inr (Some res)))"
  by (simp add: post_succeeds judge_Done)

text \<open>
  C11. The loop of \<open>_post\<close> computes what its description says: with the verdicts on the first
  three answers, all but the last of the leading retried ones cost a request and a pause, the
  next verdict is final, and session, requests, pauses and result are those of the
  reference.
\<close>

theorem post_is_reference:
  "post U net body sw = post_reference U net body sw"
proof -
  obtain s w where sw: "sw = (s, w)" by (cases sw)
  show ?thesis
    unfolding sw post_unfold post_reference_def first_three prod.case
    by (auto simp: Let_def retried_def pause_def trace_def request_def happen_def MAX_ATTEMPTS_def numeral_2_eq_2
        numeral_3_eq_3 split: verdict.splits)
qed

text \<open>
  The retry matrix: on an answer whose \<open>errors\<close> have the documented form an attempt
  succeeds or raises on 200, is fatal on 401 and 403, is repeated on 429 after
  \<open>Retry-After\<close> seconds (else $2^a$), on 5xx after $2^{a-1}$ seconds, and raises on every
  other status.
\<close>

theorem retry_matrix:
  assumes "errors_list (parse_json r)"
  shows "\<exists>m c. judge U a (Answer r) =
    (let st = status_code r; e = CloudflareEmailError m (Some st) c (st \<in> {401, 403}) in
     if st = 200 then
       (case success_result (parse_json r) of Inr (Some res) \<Rightarrow> Done res | _ \<Rightarrow> Raise e)
     else if st \<in> {401, 403} then Fatal e
     else if st = 429 then Retry e (retry_delay U a r)
     else if 500 \<le> st then Retry e (2 ^ (a - 1))
     else Raise e)"
  using assms by (rule judge_documented)

theorem retry_matrix_witness:
  "\<exists>m c. judge plain_interp 2 (Answer \<lparr>status_code = 429, body_json = Some (JObj []), retry_header = Some (lit ''7'')\<rparr>)
     = Retry (CloudflareEmailError m (Some 429) c False) 7"
proof -
  let ?r = "\<lparr>status_code = 429, body_json = Some (JObj []), retry_header = Some (lit ''7'')\<rparr>"
  have "errors_list (parse_json ?r)" by (simp add: errors_list_def parse_json_def)
  moreover have "retry_delay plain_interp 2 ?r = 7"
    by (simp add: retry_delay_def retry_after_def py_int_def strip_by_def c_space_def int_unsigned_def
        digits_value_def)
  ultimately show ?thesis using retry_matrix [of ?r plain_interp 2] by (simp add: Let_def)
qed

text \<open>
  When three answers in a row are of the kind that is retried, the send gives up with a
  non-fatal error that carries the status and the code of the last answer, and the session
  can go on.
\<close>

theorem gives_up_after_three:
  assumes "keeps_trying U net (sent w) 2" and "judge U 3 (net (sent w + 2)) = Retry e d"
  shows "case post U net body (s, w) of ((s1, w1), r) \<Rightarrow>
    s1 = s \<and> (\<exists>x. r = Inl x \<and> is_cf_error x \<and> \<not> cf_fatal x \<and> cf_status x = cf_status e \<and> cf_code x = cf_code e
      \<and> startswith (cf_message x) (lit ''Giving up after 3 attempts: ''))"
proof -
  have "startswith (cf_message (giving_up e)) (lit ''Giving up after 3 attempts: '')"
    by (simp add: giving_up_def startswith_def MAX_ATTEMPTS_def)
  with post_gives_up [OF assms, of body s] show ?thesis
    by (auto simp: giving_up_def split: prod.splits)
qed

theorem gives_up_after_three_witness:
  "case post plain_interp (\<lambda>n. NetworkError (lit ''timeout'')) [] (new_session [] [] [] [] [], \<lparr>sent = 0, events = []\<rparr>)
   of ((s1, w1), r) \<Rightarrow> s1 = new_session [] [] [] [] [] \<and> (\<exists>x. r = Inl x \<and> is_cf_error x \<and> \<not> cf_fatal x \<and> cf_status x = None)"
proof -
  let ?net = "\<lambda>n :: nat. NetworkError (lit ''timeout'')"
  have j: "judge plain_interp a (?net n) = Retry (cf_error (lit ''Could not reach Cloudflare: timeout'')) (2 ^ (a - 1))"
    for a n by (simp add: judge_def)
  have "keeps_trying plain_interp ?net (sent \<lparr>sent = 0, events = []\<rparr>) 2"
    unfolding keeps_trying_def j by simp
  from gives_up_after_three [OF this j, of "new_session [] [] [] [] []" "[]"] show ?thesis
    by (auto split: prod.splits)
qed


text \<open>
  Whatever a batch holds, everything its session does is within bounds: every request
  goes to the send URL of its account with its bearer token, carries at most 5 MiB, every
  pause is between 0 and 10 seconds, and there are at most three requests per message.
\<close>

theorem batch_requests_ok:
  "case run_steps (send_message E net) (new_session acct token ff sf name, \<lparr>sent = 0, events = []\<rparr>) calls of
     (sw, outcomes) \<Rightarrow>
       list_all (event_ok (new_session acct token ff sf name)) (events (snd sw))
       \<and> sent (snd sw) \<le> 3 * length calls"
  by (auto simp: list_all_iff dest: new_session_batch split: prod.splits)

text \<open>
  C24. Success is not claimed for nobody: when \<open>send_message\<close> returns, the API reported no
  failure for at least one of the envelope's addresses, the payload was built from the message
  and the body posted was its encoding.
\<close>

theorem send_success_reaches_someone:
  "case snd (send_message E net (s, w) c) of
     Inl e \<Rightarrow> True
   | Inr i \<Rightarrow>
       \<exists>p body res b sp. build_payload E (c_message c) (c_smtp_to c) = Inr p
         \<and> encode (dumps (payload_json p)) = Some body
         \<and> snd (post (env_interp E) net body (s, w)) = Inr res
         \<and> lower_set (env_interp E) res ''permanent_bounces'' = Inr b
         \<and> lower_set (env_interp E) res ''suppressed_recipients'' = Inr sp
         \<and> (\<exists>a \<in> set (c_smtp_to c). lower (env_interp E) a \<notin> set b \<union> set sp)"
proof (cases "snd (send_message E net (s, w) c)")
  case (Inr i)
  obtain p body res wn where p: "request_body E c = Inr (p, body)"
    and r: "snd (post (env_interp E) net body (s, w)) = Inr res"
    and k: "check_recipients (env_interp E) res p = Inr wn"
    using send_message_Inr [OF Inr] by metis
  note pb = request_body_Inr [OF p]
  note rec = build_payload_recipients [OF pb(1)]
  obtain b sp where l: "lower_set (env_interp E) res ''permanent_bounces'' = Inr b"
    "lower_set (env_interp E) res ''suppressed_recipients'' = Inr sp"
    "set b \<union> set sp = {} \<or> \<not> addr_key (env_interp E) ` set (payload_recipients p) \<subseteq> set b \<union> set sp"
    using check_recipients_Inr [OF k] by metis
  have "lower (env_interp E) ` set (c_smtp_to c) \<noteq> {}"
    using rec(2) unfolding rec(1) [symmetric] by simp
  then have "\<not> lower (env_interp E) ` set (c_smtp_to c) \<subseteq> set b \<union> set sp"
    using l(3) unfolding rec(1) by (elim disjE) (simp_all only: subset_empty not_False_eq_True)
  then have "\<exists>a \<in> set (c_smtp_to c). lower (env_interp E) a \<notin> set b \<union> set sp" by blast
  then show ?thesis
    unfolding Inr sum.case
    by (intro exI [of _ p] exI [of _ body] exI [of _ res] exI [of _ b] exI [of _ sp] conjI pb r l(1,2))
qed simp

text \<open>
  C30. The verdict on per-recipient failures is exact: on an answer whose four lists have the
  documented form, \<open>_check_recipients\<close> raises exactly when some address failed and either
  every recipient failed or nothing was delivered or queued, warns exactly when some but not
  all failed, and is silent when none failed. Case does not matter.
\<close>

theorem check_recipients_exact:
  assumes "lower_set U res ''permanent_bounces'' = Inr b" and "lower_set U res ''suppressed_recipients'' = Inr sp"
    and "jget res (lit ''delivered'') = Inr (JArr d)" and "jget res (lit ''queued'') = Inr (JArr q)"
  shows "case check_recipients U res p of
      Inl e \<Rightarrow> is_cf_error e \<and> b @ sp \<noteq> []
        \<and> (addr_key U ` set (payload_recipients p) \<subseteq> set b \<union> set sp \<or> d @ q = [])
    | Inr None \<Rightarrow> b @ sp = []
    | Inr (Some (i, detail)) \<Rightarrow> b @ sp \<noteq> [] \<and> d @ q \<noteq> []
        \<and> (\<exists>r \<in> set (payload_recipients p). addr_key U r \<notin> set b \<union> set sp)
        \<and> detail = failure_detail U b sp"
proof -
  have o: "py_or (JArr xs) (JArr []) = JArr xs" for xs by (simp add: py_or_def)
  have "is_dict res" using assms(3) by (rule jget_Inr_dict)
  then obtain i where "jget res (lit ''message_id'') = Inr i" using jget_dict by blast
  with assms show ?thesis
    by (auto simp: check_recipients_def Let_def o py_plus_def image_subset_iff simp del: lit_simps)
qed

definition sample_answer :: json where
  "sample_answer = JObj [(lit ''permanent_bounces'', JArr [JStr (lit ''A'')]), (lit ''delivered'', JArr [JStr (lit ''b'')]),
     (lit ''queued'', JArr [])]"

definition sample_payload :: payload where
  "sample_payload = \<lparr>p_from = address_of ([], lit ''f''), p_to = [address_of ([], lit ''a'')], p_subject = [],
     p_cc = Some [address_of ([], lit ''B'')], p_bcc = None, p_reply_to = None, p_text = Some (lit ''t''),
     p_html = None, p_headers = None, p_attachments = None\<rparr>"

theorem check_recipients_exact_witness:
  "\<exists>i. check_recipients plain_interp sample_answer sample_payload
     = Inr (Some (i, failure_detail plain_interp [lit ''a''] []))"
proof -
  have b: "lower_set plain_interp sample_answer ''permanent_bounces'' = Inr [lit ''a'']"
    and sp: "lower_set plain_interp sample_answer ''suppressed_recipients'' = Inr []"
    and d: "jget sample_answer (lit ''delivered'') = Inr (JArr [JStr (lit ''b'')])"
    and q: "jget sample_answer (lit ''queued'') = Inr (JArr [])"
    by (simp_all add: lower_set_def sample_answer_def py_or_def lower_def ascii_lower_def)
  have "addr_key plain_interp ` set (payload_recipients sample_payload) = {lit ''a'', lit ''b''}"
    by (simp add: payload_recipients_def sample_payload_def opt_list_def addr_key_def address_of_def
        lower_def ascii_lower_def)
  with check_recipients_exact [OF b sp d q, of sample_payload] show ?thesis
    by (auto split: sum.splits option.splits)
qed



end
