(* ===== verification/Orm.thy ===== *)
theory Orm
  imports PyJson
begin

text \<open>
  The record store the models rest on. Odoo's ORM is outside the repository: it is the
  parameter \<open>orm\<close>, the operations of a database state of any type, and the locale
  \<open>orm_laws\<close> says what its documentation promises of the stored fields the module uses. A
  store in memory, at the end, is an interpretation of the laws.
\<close>

section \<open>The interface\<close>

type_synonym vals = "(pystr, json) dict"

text \<open>A search domain: a conjunction of conditions on stored fields.\<close>

datatype condition = Equals pystr json | NotIn pystr "json list"

record 'db orm =
  o_ids :: "'db \<Rightarrow> nat list"
  o_get :: "'db \<Rightarrow> nat \<Rightarrow> pystr \<Rightarrow> json"
  o_write :: "'db \<Rightarrow> nat list \<Rightarrow> vals \<Rightarrow> 'db py"
  o_create :: "'db \<Rightarrow> vals list \<Rightarrow> ('db \<times> nat list) py"
  o_search :: "'db \<Rightarrow> condition list \<Rightarrow> nat \<Rightarrow> nat list"
  o_default :: "pystr \<Rightarrow> json"

fun condition_holds :: "(pystr \<Rightarrow> json) \<Rightarrow> condition \<Rightarrow> bool" where
  "condition_holds r (Equals f v) = (r f = v)"
| "condition_holds r (NotIn f vs) = (r f \<notin> set vs)"

text \<open>A search sees the active records only.\<close>

definition matches :: "'db orm \<Rightarrow> 'db \<Rightarrow> condition list \<Rightarrow> nat \<Rightarrow> bool" where
  "matches Ops db conds i \<longleftrightarrow>
     i \<in> set (o_ids Ops db) \<and> truthy (o_get Ops db i (lit ''active''))
     \<and> list_all (condition_holds (o_get Ops db i)) conds"

definition written :: "vals \<Rightarrow> pystr \<Rightarrow> json \<Rightarrow> json" where
  "written vals f old = (case map_of vals f of None \<Rightarrow> old | Some v \<Rightarrow> v)"

text \<open>A \<open>Char\<close> field or parameter as text; unset is \<open>False\<close>.\<close>

fun text_of :: "json \<Rightarrow> pystr" where
  "text_of (JStr s) = s"
| "text_of _ = []"

section \<open>Its laws\<close>

locale orm_laws =
  fixes Ops :: "'db orm"
    and stored :: "pystr \<Rightarrow> bool"
    and constraint :: "'db \<Rightarrow> bool"
  assumes write_ids: "o_write Ops db ids vals = Inr db' \<Longrightarrow> o_ids Ops db' = o_ids Ops db"
    and write_get: "o_write Ops db ids vals = Inr db' \<Longrightarrow> stored f \<Longrightarrow>
        o_get Ops db' i f = (if i \<in> set ids then written vals f (o_get Ops db i f) else o_get Ops db i f)"
    and write_constraint: "o_write Ops db ids vals = Inr db' \<Longrightarrow> ids \<noteq> [] \<Longrightarrow> constraint db'"
    and create_ids: "o_create Ops db vs = Inr (db', new) \<Longrightarrow>
        length new = length vs \<and> set new \<inter> set (o_ids Ops db) = {}
        \<and> set (o_ids Ops db') = set (o_ids Ops db) \<union> set new"
    and create_old: "o_create Ops db vs = Inr (db', new) \<Longrightarrow> stored f \<Longrightarrow> i \<in> set (o_ids Ops db) \<Longrightarrow>
        o_get Ops db' i f = o_get Ops db i f"
    and create_new: "o_create Ops db vs = Inr (db', new) \<Longrightarrow> stored f \<Longrightarrow> k < length vs \<Longrightarrow>
        o_get Ops db' (new ! k) f = written (vs ! k) f (o_default Ops f)"
    and create_constraint: "o_create Ops db vs = Inr (db', new) \<Longrightarrow> vs \<noteq> [] \<Longrightarrow> constraint db'"
    and search_sound: "i \<in> set (o_search Ops db conds n) \<Longrightarrow> matches Ops db conds i"
    and search_limit: "length (o_search Ops db conds n) \<le> n"
    and search_finds: "matches Ops db conds i \<Longrightarrow> 0 < n \<Longrightarrow> o_search Ops db conds n \<noteq> []"
begin

lemma search_one:
  obtains "o_search Ops db conds 1 = []" "\<And>i. \<not> matches Ops db conds i"
  | i where "o_search Ops db conds 1 = [i]" "matches Ops db conds i"
proof (cases "o_search Ops db conds 1")
  case Nil
  with search_finds [of db conds _ 1] that(1) show thesis by auto
next
  case (Cons i r)
  with search_limit [of db conds 1] have "r = []" by simp
  with Cons search_sound [of i db conds 1] that(2) show thesis by simp
qed

lemma write_same:
  "o_write Ops db ids vals = Inr db' \<Longrightarrow> stored f \<Longrightarrow> f \<notin> set (keys vals) \<Longrightarrow>
     o_get Ops db' i f = o_get Ops db i f"
  using map_of_None_keys [of vals f] by (simp add: write_get written_def)

end

section \<open>A store in memory\<close>

type_synonym memory = "(nat \<times> vals) list"

definition mem_get :: "(pystr \<Rightarrow> json) \<Rightarrow> memory \<Rightarrow> nat \<Rightarrow> pystr \<Rightarrow> json" where
  "mem_get dflt m i f = (case map_of m i of None \<Rightarrow> JBool False | Some r \<Rightarrow> written r f (dflt f))"

definition mem_ids :: "memory \<Rightarrow> nat list" where
  "mem_ids m = remdups (map fst m)"

text \<open>The assignments of \<open>vals\<close> to a record, in order; a repeated field keeps its first.\<close>

definition assign :: "vals \<Rightarrow> vals \<Rightarrow> vals" where
  "assign vals r = vals @ r"

definition mem_write :: "(memory \<Rightarrow> bool) \<Rightarrow> memory \<Rightarrow> nat list \<Rightarrow> vals \<Rightarrow> memory py" where
  "mem_write constraint m ids vals =
     (let m' = map (\<lambda>(i, r). (i, if i \<in> set ids then assign vals r else r)) m in
      if set ids \<subseteq> set (map fst m) \<and> (ids = [] \<or> constraint m') then Inr m'
      else Inl (ValidationError (lit ''constraint'')))"

definition fresh :: "memory \<Rightarrow> nat" where
  "fresh m = Suc (sum_list (map fst m))"

definition mem_create :: "(memory \<Rightarrow> bool) \<Rightarrow> memory \<Rightarrow> vals list \<Rightarrow> (memory \<times> nat list) py" where
  "mem_create constraint m vs =
     (let new = [fresh m..<fresh m + length vs]; m' = m @ zip new vs in
      if vs = [] \<or> constraint m' then Inr (m', new) else Inl (ValidationError (lit ''constraint'')))"

definition mem_search :: "(pystr \<Rightarrow> json) \<Rightarrow> memory \<Rightarrow> condition list \<Rightarrow> nat \<Rightarrow> nat list" where
  "mem_search dflt m conds n =
     take n (filter (\<lambda>i. truthy (mem_get dflt m i (lit ''active''))
                     \<and> list_all (condition_holds (mem_get dflt m i)) conds) (mem_ids m))"

definition memory_orm :: "(pystr \<Rightarrow> json) \<Rightarrow> (memory \<Rightarrow> bool) \<Rightarrow> memory orm" where
  "memory_orm dflt constraint =
     \<lparr>o_ids = mem_ids, o_get = mem_get dflt, o_write = mem_write constraint,
      o_create = mem_create constraint, o_search = mem_search dflt, o_default = dflt\<rparr>"

lemma map_of_assign:
  "map_of (map (\<lambda>(i, r). (i, if i \<in> S then assign vals r else r)) m) i =
     map_option (\<lambda>r. if i \<in> S then assign vals r else r) (map_of m i)"
  by (induction m) auto

lemma written_assign: "written (assign vals r) f d = written vals f (written r f d)"
  by (simp add: written_def assign_def map_add_def split: option.splits)

lemma fst_le_sum: "(i :: nat) \<in> fst ` set m \<Longrightarrow> i \<le> sum_list (map fst m)"
  using member_le_sum_list [of i "map fst m"] by simp

lemma fresh_not_in: "fresh m \<le> i \<Longrightarrow> i \<notin> fst ` set m"
  using fst_le_sum [of i m] by (auto simp: fresh_def)

lemma mem_create_get:
  assumes "mem_create c m vs = Inr (m', new)"
  shows "new = [fresh m..<fresh m + length vs]" "m' = m @ zip new vs"
  using assms by (auto simp: mem_create_def Let_def split: if_splits)

interpretation memory: orm_laws "memory_orm dflt c" "\<lambda>f. True" c for dflt c
proof
  fix db db' ids vals f i vs new k conds and n :: nat
  show "o_write (memory_orm dflt c) db ids vals = Inr db' \<Longrightarrow>
      o_ids (memory_orm dflt c) db' = o_ids (memory_orm dflt c) db"
    by (auto simp: memory_orm_def mem_write_def mem_ids_def Let_def comp_def case_prod_beta split: if_splits)
  show "o_get (memory_orm dflt c) db' i f =
      (if i \<in> set ids then written vals f (o_get (memory_orm dflt c) db i f)
       else o_get (memory_orm dflt c) db i f)"
    if w: "o_write (memory_orm dflt c) db ids vals = Inr db'"
  proof -
    from w have db': "db' = map (\<lambda>(i, r). (i, if i \<in> set ids then assign vals r else r)) db"
      and sub: "set ids \<subseteq> set (map fst db)"
      by (auto simp: memory_orm_def mem_write_def Let_def split: if_splits)
    show ?thesis
    proof (cases "map_of db i")
      case None
      with sub have "i \<notin> set ids" by (auto simp: map_of_eq_None_iff)
      with None show ?thesis by (simp add: memory_orm_def mem_get_def db' map_of_assign)
    next
      case (Some r)
      then show ?thesis by (simp add: memory_orm_def mem_get_def db' map_of_assign written_assign)
    qed
  qed
  show "o_write (memory_orm dflt c) db ids vals = Inr db' \<Longrightarrow> ids \<noteq> [] \<Longrightarrow> c db'"
    by (auto simp: memory_orm_def mem_write_def Let_def split: if_splits)
  show "length new = length vs \<and> set new \<inter> set (o_ids (memory_orm dflt c) db) = {}
      \<and> set (o_ids (memory_orm dflt c) db') = set (o_ids (memory_orm dflt c) db) \<union> set new"
    if "o_create (memory_orm dflt c) db vs = Inr (db', new)"
  proof -
    have m: "mem_create c db vs = Inr (db', new)" using that by (simp add: memory_orm_def)
    note n = mem_create_get [OF m]
    have disjoint: "set new \<inter> fst ` set db = {}"
    proof -
      have "i \<notin> fst ` set db" if "i \<in> set new" for i
        using that by (intro fresh_not_in) (simp add: n(1))
      then show ?thesis by blast
    qed
    have "map fst (zip new vs) = new" by (rule map_fst_zip) (simp add: n(1))
    then have "fst ` set (zip new vs) = set new" by (metis list.set_map)
    with disjoint show ?thesis by (simp add: memory_orm_def mem_ids_def n image_Un)
  qed
  show "o_get (memory_orm dflt c) db' i f = o_get (memory_orm dflt c) db i f"
    if "o_create (memory_orm dflt c) db vs = Inr (db', new)" "i \<in> set (o_ids (memory_orm dflt c) db)"
  proof -
    have m: "mem_create c db vs = Inr (db', new)" using that by (simp add: memory_orm_def)
    have "map_of db i \<noteq> None" using that(2) by (simp add: memory_orm_def mem_ids_def map_of_eq_None_iff)
    then show ?thesis
      using mem_create_get [OF m] by (auto simp: memory_orm_def mem_get_def map_add_def split: option.splits)
  qed
  show "o_get (memory_orm dflt c) db' (new ! k) f = written (vs ! k) f (o_default (memory_orm dflt c) f)"
    if "o_create (memory_orm dflt c) db vs = Inr (db', new)" "k < length vs"
  proof -
    have m: "mem_create c db vs = Inr (db', new)" using that by (simp add: memory_orm_def)
    note n = mem_create_get [OF m]
    have "map_of db (new ! k) = None"
      using fresh_not_in [of db "new ! k"] that(2) by (simp add: n(1) map_of_eq_None_iff)
    moreover have "map_of (zip new vs) (new ! k) = Some (vs ! k)"
    proof (rule map_of_is_SomeI)
      show "distinct (map fst (zip new vs))" by (simp add: n(1) map_fst_zip)
      show "(new ! k, vs ! k) \<in> set (zip new vs)"
        using that(2) by (auto simp: n(1) in_set_zip intro!: exI [of _ k])
    qed
    ultimately show ?thesis by (simp add: memory_orm_def mem_get_def n(2) map_add_def)
  qed
  show "o_create (memory_orm dflt c) db vs = Inr (db', new) \<Longrightarrow> vs \<noteq> [] \<Longrightarrow> c db'"
    by (auto simp: memory_orm_def mem_create_def Let_def split: if_splits)
  show "i \<in> set (o_search (memory_orm dflt c) db conds n) \<Longrightarrow> matches (memory_orm dflt c) db conds i"
    by (auto simp: matches_def memory_orm_def mem_search_def dest: in_set_takeD)
  show "length (o_search (memory_orm dflt c) db conds n) \<le> n"
    by (simp add: memory_orm_def mem_search_def)
  show "matches (memory_orm dflt c) db conds i \<Longrightarrow> 0 < n \<Longrightarrow> o_search (memory_orm dflt c) db conds n \<noteq> []"
    by (auto simp: matches_def memory_orm_def mem_search_def filter_empty_conv)
qed

end
