(* ===== verification/MailServer.thy ===== *)
theory MailServer
  imports Session Orm
begin

text \<open>
  \<open>ir.mail_server\<close> with the "Cloudflare Email Sending" authentication
  (\<open>models/ir_mail_server.py\<close>): the credentials constraint, the choice of a server and the
  session \<open>connect\<close> returns for it, the size limit, and the test of the connection.
\<close>

section \<open>Fields and environment\<close>

definition MAX_EMAIL_SIZE_MB :: json where "MAX_EMAIL_SIZE_MB = JFloat (lit ''5.0'')"

definition CF_AUTH :: json where "CF_AUTH = JStr (lit ''cloudflare'')"

definition A_AUTH :: pystr where "A_AUTH = lit ''smtp_authentication''"

definition A_ACCOUNT :: pystr where "A_ACCOUNT = lit ''cloudflare_account_id''"

definition A_TOKEN :: pystr where "A_TOKEN = lit ''cloudflare_api_token''"

definition A_FILTER :: pystr where "A_FILTER = lit ''from_filter''"

definition A_ACTIVE :: pystr where "A_ACTIVE = lit ''active''"

definition A_SIZE :: pystr where "A_SIZE = lit ''max_email_size''"

lemmas mail_field_defs = A_AUTH_def A_ACCOUNT_def A_TOKEN_def A_FILTER_def A_ACTIVE_def A_SIZE_def

lemma size_field_distinct [simp]: "A_TOKEN \<noteq> A_SIZE" "A_AUTH \<noteq> A_SIZE"
  by (simp_all add: mail_field_defs)

text \<open>The arguments of \<open>connect\<close>; an absent server id is \<open>None\<close> or 0.\<close>

record connect_args =
  a_host :: json
  a_port :: json
  a_user :: json
  a_password :: json
  a_encryption :: json
  a_smtp_from :: json
  a_ssl_certificate :: json
  a_ssl_private_key :: json
  a_smtp_debug :: bool
  a_mail_server_id :: "nat option"
  a_allow_archived :: bool

text \<open>
  What the model takes from outside: the record store, the translation of a message with its
  arguments, core's \<open>_find_mail_server\<close>, \<open>connect\<close>, \<open>test_smtp_connection\<close> and
  \<open>_get_max_email_size\<close>, and \<open>human_size\<close> of a size given in MiB.
\<close>

record ('db, 'c) ms_env =
  ms_orm :: "'db orm"
  ms_interp :: interp
  ms_tr :: "pystr \<Rightarrow> pystr list \<Rightarrow> pystr"
  ms_find :: "'db \<Rightarrow> json \<Rightarrow> nat option \<times> json"
  ms_core_connect :: "'db \<Rightarrow> connect_args \<Rightarrow> 'c py"
  ms_core_test :: "'db \<Rightarrow> nat list \<Rightarrow> bool \<Rightarrow> 'db \<times> json py"
  ms_core_size :: "'db \<Rightarrow> nat \<Rightarrow> json"
  ms_human_size :: "json \<Rightarrow> pystr"

definition ms_get :: "('db, 'c) ms_env \<Rightarrow> 'db \<Rightarrow> nat \<Rightarrow> pystr \<Rightarrow> json" where
  "ms_get E db i f = o_get (ms_orm E) db i f"

definition uses_cloudflare :: "('db, 'c) ms_env \<Rightarrow> 'db \<Rightarrow> nat \<Rightarrow> bool" where
  "uses_cloudflare E db i \<longleftrightarrow> ms_get E db i A_AUTH = CF_AUTH"

section \<open>Presentation\<close>

definition AUTHENTICATION_INFO :: pystr where
  "AUTHENTICATION_INFO =
     lit ''Send through the Cloudflare Email Sending REST API instead of SMTP. '' @ [10]
     @ lit ''The FROM Filtering must be a domain onboarded for Email Sending on ''
     @ lit ''the account: Cloudflare only sends from onboarded domains and ''
     @ lit ''returns per-recipient results synchronously.''"

text \<open>The information text of each server; the others are left to core (\<open>others\<close>).\<close>

definition smtp_authentication_info ::
  "('db, 'c) ms_env \<Rightarrow> ('db \<Rightarrow> nat list \<Rightarrow> nat \<Rightarrow> pystr) \<Rightarrow> 'db \<Rightarrow> nat list \<Rightarrow> nat \<Rightarrow> pystr"
where
  "smtp_authentication_info E others db ids i =
     (if uses_cloudflare E db i then ms_tr E AUTHENTICATION_INFO []
      else others db (filter (\<lambda>j. \<not> uses_cloudflare E db j) ids) i)"

definition onchange_encryption :: "json \<Rightarrow> json \<Rightarrow> json" where
  "onchange_encryption authentication core = (if authentication = CF_AUTH then JObj [] else core)"

text \<open>The fields of the form \<open>_onchange_smtp_authentication_cloudflare\<close> sets.\<close>

definition onchange_authentication :: "json \<Rightarrow> vals" where
  "onchange_authentication authentication =
     (if authentication = CF_AUTH
      then [(lit ''smtp_host'', JBool False), (lit ''smtp_port'', JBool False),
            (lit ''smtp_encryption'', JStr (lit ''none'')), (A_SIZE, MAX_EMAIL_SIZE_MB)]
      else [])"

section \<open>The constraint\<close>

definition CONSTRAINED :: "pystr list" where
  "CONSTRAINED = [A_AUTH, A_ACCOUNT, A_TOKEN, A_FILTER]"

text \<open>The quotation marks around the name are U+201C and U+201D.\<close>

definition no_account_message :: pystr where
  "no_account_message = lit ''The Cloudflare Account ID is required for the outgoing ''
     @ lit ''mail server '' @ [0x201C] @ lit ''%s'' @ [0x201D] @ lit ''.''"

definition no_token_message :: pystr where
  "no_token_message = lit ''The Cloudflare API Token is required for the outgoing ''
     @ lit ''mail server '' @ [0x201C] @ lit ''%s'' @ [0x201D] @ lit ''.''"

definition no_filter_message :: pystr where
  "no_filter_message = lit ''The outgoing mail server '' @ [0x201C] @ lit ''%s'' @ [0x201D]
     @ lit '' needs a FROM Filtering set '' @ lit ''to a domain onboarded for Cloudflare Email Sending.''"

definition required :: "(pystr \<times> pystr) list" where
  "required = [(A_ACCOUNT, no_account_message), (A_TOKEN, no_token_message), (A_FILTER, no_filter_message)]"

text \<open>The first required field that is empty is reported.\<close>

fun check_fields :: "('db, 'c) ms_env \<Rightarrow> 'db \<Rightarrow> nat \<Rightarrow> (pystr \<times> pystr) list \<Rightarrow> unit py" where
  "check_fields E db i [] = Inr ()"
| "check_fields E db i ((f, message) # fs) =
     (if \<not> truthy (ms_get E db i f)
      then Inl (ValidationError (ms_tr E message [py_str (ms_interp E) (ms_get E db i (lit ''name''))]))
      else check_fields E db i fs)"

definition check_cloudflare_credentials :: "('db, 'c) ms_env \<Rightarrow> 'db \<Rightarrow> nat list \<Rightarrow> unit py" where
  "check_cloudflare_credentials E db ids =
     bindR (traverse (\<lambda>i. check_fields E db i required) (filter (uses_cloudflare E db) ids)) (\<lambda>_. Inr ())"

text \<open>
  When it runs: \<open>@api.constrains\<close> makes a write run it on the written records if one of the
  fields is written, and \<open>create\<close> on the new records, whose every field is set.
\<close>

definition ms_write :: "('db, 'c) ms_env \<Rightarrow> 'db \<Rightarrow> nat list \<Rightarrow> vals \<Rightarrow> 'db py" where
  "ms_write E db ids values =
     bindR (o_write (ms_orm E) db ids values) (\<lambda>db1.
       if list_ex (\<lambda>f. f \<in> set CONSTRAINED) (keys values)
       then bindR (check_cloudflare_credentials E db1 ids) (\<lambda>_. Inr db1)
       else Inr db1)"

definition ms_create :: "('db, 'c) ms_env \<Rightarrow> 'db \<Rightarrow> vals list \<Rightarrow> ('db \<times> nat list) py" where
  "ms_create E db vals_list =
     bindR (o_create (ms_orm E) db vals_list) (\<lambda>(db1, ids).
       bindR (check_cloudflare_credentials E db1 ids) (\<lambda>_. Inr (db1, ids)))"

section \<open>Sending\<close>

definition get_max_email_size :: "('db, 'c) ms_env \<Rightarrow> 'db \<Rightarrow> nat \<Rightarrow> json" where
  "get_max_email_size E db i =
     (if uses_cloudflare E db i then py_or (ms_get E db i A_SIZE) MAX_EMAIL_SIZE_MB
      else ms_core_size E db i)"

definition cloudflare_session :: "('db, 'c) ms_env \<Rightarrow> 'db \<Rightarrow> nat \<Rightarrow> json \<Rightarrow> session" where
  "cloudflare_session E db i smtp_from =
     new_session (py_str (ms_interp E) (ms_get E db i A_ACCOUNT)) (py_str (ms_interp E) (ms_get E db i A_TOKEN))
       (text_of (ms_get E db i A_FILTER)) (text_of smtp_from)
       (text_of (ms_get E db i (lit ''display_name'')))"

text \<open>The server the arguments name, or the one found, with the sender that goes with it.\<close>

definition chosen_server :: "('db, 'c) ms_env \<Rightarrow> 'db \<Rightarrow> connect_args \<Rightarrow> nat option \<times> json" where
  "chosen_server E db a =
     (if a_mail_server_id a \<notin> {None, Some 0} then (a_mail_server_id a, a_smtp_from a)
      else if \<not> truthy (a_host a) then ms_find E db (a_smtp_from a)
      else (None, a_smtp_from a))"

datatype 'c connection = NoConnection | CloudflareConnection session | CoreConnection 'c

definition archived_error :: "('db, 'c) ms_env \<Rightarrow> 'db \<Rightarrow> nat \<Rightarrow> py_exc" where
  "archived_error E db i =
     UserError (ms_tr E (lit ''The server \"%s\" cannot be used because it is archived.'')
       [text_of (ms_get E db i (lit ''display_name''))])"

definition ms_connect :: "('db, 'c) ms_env \<Rightarrow> bool \<Rightarrow> 'db \<Rightarrow> connect_args \<Rightarrow> 'c connection py" where
  "ms_connect E current_test db a =
     (if current_test then Inr NoConnection
      else
        let (server, smtp_from) = chosen_server E db a;
            core = (\<lambda>i. bindR (ms_core_connect E db (a\<lparr>a_smtp_from := smtp_from, a_mail_server_id := i\<rparr>))
                     (\<lambda>c. Inr (CoreConnection c)))
        in
        case server of
          None \<Rightarrow> core (a_mail_server_id a)
        | Some i \<Rightarrow>
            if uses_cloudflare E db i then
              if \<not> a_allow_archived a \<and> \<not> truthy (ms_get E db i A_ACTIVE) then Inl (archived_error E db i)
              else Inr (CloudflareConnection (cloudflare_session E db i smtp_from))
            else core (Some i))"

section \<open>Testing the connection\<close>

definition test_failed :: "('db, 'c) ms_env \<Rightarrow> 'db \<Rightarrow> nat \<Rightarrow> py_exc \<Rightarrow> py_exc" where
  "test_failed E db i e =
     (if is_cf_error e
      then UserError (ms_tr E (lit ''Connection Test Failed for %(server)s!'' @ [10] @ lit ''%(error)s'')
             [py_str (ms_interp E) (ms_get E db i (lit ''name'')), cf_message e])
      else e)"

definition verify_request :: "('db, 'c) ms_env \<Rightarrow> 'db \<Rightarrow> nat \<Rightarrow> (nat \<Rightarrow> reply) \<Rightarrow> world \<Rightarrow> world \<times> json py" where
  "verify_request E db i net w =
     (case verify_token (ms_interp E) (py_str (ms_interp E) (ms_get E db i A_TOKEN)) True (net (sent w)) of
        (evs, res) \<Rightarrow> (w\<lparr>sent := Suc (sent w), events := events w @ evs\<rparr>, res))"

fun test_tokens ::
  "('db, 'c) ms_env \<Rightarrow> (nat \<Rightarrow> reply) \<Rightarrow> bool \<Rightarrow> 'db \<times> world \<Rightarrow> nat list \<Rightarrow> ('db \<times> world) \<times> unit py"
where
  "test_tokens E net autodetect (db, w) [] = ((db, w), Inr ())"
| "test_tokens E net autodetect (db, w) (i # is) =
     (case verify_request E db i net w of
        (w1, Inl e) \<Rightarrow> ((db, w1), Inl (test_failed E db i e))
      | (w1, Inr _) \<Rightarrow>
          if autodetect then
            (case ms_write E db [i] [(A_SIZE, MAX_EMAIL_SIZE_MB)] of
               Inl e \<Rightarrow> ((db, w1), Inl e)
             | Inr db1 \<Rightarrow> test_tokens E net autodetect (db1, w1) is)
          else test_tokens E net autodetect (db, w1) is)"

definition test_message :: "('db, 'c) ms_env \<Rightarrow> bool \<Rightarrow> 'db \<Rightarrow> nat list \<Rightarrow> pystr" where
  "test_message E autodetect db ids =
     (if autodetect then
        ms_tr E (lit ''Email maximum size updated (%(details)s).'')
          [join (lit '', '') (map (\<lambda>i. py_str (ms_interp E) (ms_get E db i (lit ''name'')) @ lit '': ''
             @ ms_human_size E (ms_get E db i A_SIZE)) ids)]
      else ms_tr E (lit ''Connection Test Successful!'') [])"

definition notification :: "pystr \<Rightarrow> json" where
  "notification message =
     JObj [(lit ''type'', JStr (lit ''ir.actions.client'')),
           (lit ''tag'', JStr (lit ''display_notification'')),
           (lit ''params'', JObj
              [(lit ''message'', JStr message), (lit ''type'', JStr (lit ''success'')),
               (lit ''sticky'', JBool False),
               (lit ''next'', JObj [(lit ''type'', JStr (lit ''ir.actions.act_window_close''))])])]"

definition test_smtp_connection ::
  "('db, 'c) ms_env \<Rightarrow> (nat \<Rightarrow> reply) \<Rightarrow> bool \<Rightarrow> 'db \<times> world \<Rightarrow> nat list \<Rightarrow> ('db \<times> world) \<times> json py"
where
  "test_smtp_connection E net autodetect dw ids =
     (let (db, w) = dw;
          cloudflare_servers = filter (uses_cloudflare E db) ids;
          other_servers = filter (\<lambda>i. \<not> uses_cloudflare E db i) ids
      in
      if cloudflare_servers = [] then
        (case ms_core_test E db ids autodetect of (db1, res) \<Rightarrow> ((db1, w), res))
      else
        (case (if other_servers \<noteq> [] then ms_core_test E db other_servers autodetect else (db, Inr JNull)) of
           (db1, Inl e) \<Rightarrow> ((db1, w), Inl e)
         | (db1, Inr _) \<Rightarrow>
             (case test_tokens E net autodetect (db1, w) cloudflare_servers of
                (dw2, Inl e) \<Rightarrow> (dw2, Inl e)
              | (dw2, Inr _) \<Rightarrow> (dw2, Inr (notification (test_message E autodetect (fst dw2) ids))))))"

section \<open>The constraint as an invariant\<close>

definition credentials_present :: "('db, 'c) ms_env \<Rightarrow> 'db \<Rightarrow> nat \<Rightarrow> bool" where
  "credentials_present E db i \<longleftrightarrow>
     truthy (ms_get E db i A_ACCOUNT) \<and> truthy (ms_get E db i A_TOKEN) \<and> truthy (ms_get E db i A_FILTER)"

definition servers_ok :: "('db, 'c) ms_env \<Rightarrow> 'db \<Rightarrow> bool" where
  "servers_ok E db \<longleftrightarrow>
     list_all (\<lambda>i. uses_cloudflare E db i \<longrightarrow> credentials_present E db i) (o_ids (ms_orm E) db)"

lemma check_fields_Inr: "check_fields E db i fs = Inr () \<longleftrightarrow> list_all (\<lambda>(f, m). truthy (ms_get E db i f)) fs"
  by (induction fs) (auto split: if_splits)

lemma check_credentials_Inr:
  "check_cloudflare_credentials E db ids = Inr () \<longleftrightarrow>
     (\<forall>i \<in> set ids. uses_cloudflare E db i \<longrightarrow> credentials_present E db i)"
proof -
  have one: "check_fields E db i required = Inr () \<longleftrightarrow> credentials_present E db i" for i
    by (simp add: check_fields_Inr required_def credentials_present_def)
  have "(\<exists>us. traverse (\<lambda>i. check_fields E db i required) is = Inr us)
      \<longleftrightarrow> (\<forall>i \<in> set is. credentials_present E db i)" for "is"
    by (induction "is") (auto simp: bindR_Inr_iff one)
  then show ?thesis by (auto simp: check_cloudflare_credentials_def bindR_Inr_iff)
qed

datatype ms_op = MsCreate "vals list" | MsWrite "nat list" vals

definition ms_step :: "('db, 'c) ms_env \<Rightarrow> 'db \<Rightarrow> ms_op \<Rightarrow> 'db \<times> nat list py" where
  "ms_step E db op =
     (case (case op of MsCreate vs \<Rightarrow> ms_create E db vs
            | MsWrite ids v \<Rightarrow> bindR (ms_write E db ids v) (\<lambda>db1. Inr (db1, ids))) of
        Inl e \<Rightarrow> (db, Inl e)
      | Inr (db1, ids) \<Rightarrow> (db1, Inr ids))"

text \<open>A store that keeps the ORM's laws for the fields the module reads.\<close>

locale mail_store = orm_laws "ms_orm E" stored "\<lambda>db. True"
  for E :: "('db, 'c) ms_env" and stored :: "pystr \<Rightarrow> bool" +
  assumes stored_constrained: "f \<in> set CONSTRAINED \<Longrightarrow> stored f"
    and stored_size: "stored A_SIZE"
begin

lemma stored_simps [simp]: "stored A_AUTH" "stored A_ACCOUNT" "stored A_TOKEN" "stored A_FILTER" "stored A_SIZE"
  using stored_constrained stored_size by (simp_all add: CONSTRAINED_def)

lemma same_fields_ok:
  assumes "\<And>f. f \<in> set CONSTRAINED \<Longrightarrow> ms_get E db' i f = ms_get E db i f"
  shows "uses_cloudflare E db' i = uses_cloudflare E db i" "credentials_present E db' i = credentials_present E db i"
  using assms by (simp_all add: uses_cloudflare_def credentials_present_def CONSTRAINED_def)

lemma ms_write_fields:
  assumes "ms_write E db ids v = Inr db'"
  shows "o_ids (ms_orm E) db' = o_ids (ms_orm E) db"
    and "stored f \<Longrightarrow> ms_get E db' i f = (if i \<in> set ids then written v f (ms_get E db i f) else ms_get E db i f)"
  using assms write_ids [of db ids v db'] write_get [of db ids v db' f i]
  by (auto simp: ms_write_def ms_get_def bindR_Inr_iff split: if_splits)

lemma ms_write_ok:
  assumes "servers_ok E db" and w: "ms_write E db ids v = Inr db'"
  shows "servers_ok E db'"
  unfolding servers_ok_def list_all_iff
proof (intro ballI impI)
  fix i assume i: "i \<in> set (o_ids (ms_orm E) db')" and u: "uses_cloudflare E db' i"
  show "credentials_present E db' i"
  proof (cases "i \<in> set ids \<and> list_ex (\<lambda>f. f \<in> set CONSTRAINED) (keys v)")
    case True
    then have "check_cloudflare_credentials E db' ids = Inr ()"
      using w by (auto simp: ms_write_def bindR_Inr_iff)
    with True u show ?thesis by (simp add: check_credentials_Inr)
  next
    case False
    then have same: "ms_get E db' i f = ms_get E db i f" if "f \<in> set CONSTRAINED" for f
      using that ms_write_fields(2) [OF w, of f i] stored_constrained map_of_None_keys [of v f]
      by (auto simp: written_def list_ex_iff)
    from assms(1) i u show ?thesis
      by (simp add: same_fields_ok [OF same] ms_write_fields(1) [OF w] servers_ok_def list_all_iff)
  qed
qed

lemma ms_create_ok:
  assumes "servers_ok E db" and c: "ms_create E db vs = Inr (db', ids)"
  shows "servers_ok E db'"
  unfolding servers_ok_def list_all_iff
proof (intro ballI impI)
  fix i assume i: "i \<in> set (o_ids (ms_orm E) db')" and u: "uses_cloudflare E db' i"
  from c have o: "o_create (ms_orm E) db vs = Inr (db', ids)"
    and chk: "check_cloudflare_credentials E db' ids = Inr ()"
    by (auto simp: ms_create_def bindR_Inr_iff)
  show "credentials_present E db' i"
  proof (cases "i \<in> set ids")
    case True
    with chk u show ?thesis by (simp add: check_credentials_Inr)
  next
    case False
    with i create_ids [OF o] have old: "i \<in> set (o_ids (ms_orm E) db)" by auto
    have same: "ms_get E db' i f = ms_get E db i f" if "f \<in> set CONSTRAINED" for f
      using create_old [OF o stored_constrained [OF that] old] by (simp add: ms_get_def)
    from assms(1) old u show ?thesis
      by (simp add: same_fields_ok [OF same] servers_ok_def list_all_iff)
  qed
qed

lemma ms_step_ok: "servers_ok E db \<Longrightarrow> servers_ok E (fst (ms_step E db op))"
  by (cases op) (auto simp: ms_step_def bindR_Inr_iff bindR_Inl_iff intro: ms_write_ok ms_create_ok split: sum.splits)

end

sublocale mail_store < config: step_invariant "ms_step E" "servers_ok E" "\<lambda>op. True"
  by unfold_locales (rule ms_step_ok)

section \<open>What a test of the connection does\<close>

text \<open>The events of one token check.\<close>

definition check_events :: "('db, 'c) ms_env \<Rightarrow> 'db \<Rightarrow> nat \<Rightarrow> http_event list" where
  "check_events E db i =
     [HttpGet VERIFY_URL [(lit ''Authorization'', lit ''Bearer '' @ py_str (ms_interp E) (ms_get E db i A_TOKEN))]
        REQUEST_TIMEOUT, HttpClose]"

definition verified :: "('db, 'c) ms_env \<Rightarrow> reply \<Rightarrow> bool" where
  "verified E reply \<longleftrightarrow> (case verify_result (ms_interp E) reply of Inl e \<Rightarrow> False | Inr r \<Rightarrow> True)"

lemma verify_request_eq:
  "verify_request E db i net w =
     (w\<lparr>sent := Suc (sent w), events := events w @ check_events E db i\<rparr>, verify_result (ms_interp E) (net (sent w)))"
  by (simp add: verify_request_def verify_token_def check_events_def del: lit_simps)

lemma check_events_cong:
  "ms_get E db' i A_TOKEN = ms_get E db i A_TOKEN \<Longrightarrow> check_events E db' i = check_events E db i"
  by (simp add: check_events_def)

text \<open>
  What \<open>n\<close> requests from the \<open>s\<close>-th on came to: all servers verified, or the last failed.
\<close>

definition check_outcome ::
  "('db, 'c) ms_env \<Rightarrow> (nat \<Rightarrow> reply) \<Rightarrow> bool \<Rightarrow> 'db \<Rightarrow> nat \<Rightarrow> nat list \<Rightarrow> unit py \<Rightarrow> nat \<Rightarrow> bool"
where
  "check_outcome E net auto db s is r n \<longleftrightarrow>
     (case r of
        Inr u \<Rightarrow> n = length is \<and> (\<forall>k < n. verified E (net (s + k)))
      | Inl e \<Rightarrow> 0 < n \<and> (\<forall>k < n - 1. verified E (net (s + k)))
          \<and> (auto \<or> (\<exists>x. verify_result (ms_interp E) (net (s + (n - 1))) = Inl x
                            \<and> e = test_failed E db (is ! (n - 1)) x)))"

lemma check_outcome_Cons:
  assumes "verified E (net s)" and "check_outcome E net auto db (Suc s) is r n"
  shows "check_outcome E net auto db s (i # is) r (Suc n)"
proof -
  have all: "\<forall>k < Suc m. verified E (net (s + k))" if "\<forall>k < m. verified E (net (Suc s + k))" for m
    using that assms(1) by (auto simp: less_Suc_eq_0_disj)
  show ?thesis
  proof (cases r)
    case (Inr u)
    with assms all [of n] show ?thesis by (simp add: check_outcome_def)
  next
    case (Inl e)
    with assms obtain m where m: "n = Suc m" by (cases n) (auto simp: check_outcome_def)
    with assms Inl all [of m] show ?thesis by (simp add: check_outcome_def)
  qed
qed

context mail_store begin

lemma size_write:
  assumes "ms_write E db [i] [(A_SIZE, v)] = Inr db'" and "stored f"
  shows "ms_get E db' j f = (if f = A_SIZE \<and> j = i then v else ms_get E db j f)"
  using ms_write_fields(2) [OF assms, of j] by (auto simp: written_def)

text \<open>
  The checks run in order and stop at the first failure; nothing but the size limits is
  written, and those of the servers that were checked if they are to be detected.
\<close>

lemma test_tokens_fields:
  assumes "test_tokens E net auto (db, w) is = ((db', w'), r)"
  shows "stored f \<Longrightarrow> f \<noteq> A_SIZE \<Longrightarrow> ms_get E db' j f = ms_get E db j f"
    and "auto \<Longrightarrow> ms_get E db j A_SIZE = MAX_EMAIL_SIZE_MB \<Longrightarrow> ms_get E db' j A_SIZE = MAX_EMAIL_SIZE_MB"
    and "r = Inr () \<Longrightarrow> auto \<Longrightarrow> j \<in> set is \<Longrightarrow> ms_get E db' j A_SIZE = MAX_EMAIL_SIZE_MB"
proof -
  have "(\<forall>f j. stored f \<longrightarrow> f \<noteq> A_SIZE \<longrightarrow> ms_get E db' j f = ms_get E db j f)
    \<and> (auto \<longrightarrow> (\<forall>j. ms_get E db j A_SIZE = MAX_EMAIL_SIZE_MB \<longrightarrow> ms_get E db' j A_SIZE = MAX_EMAIL_SIZE_MB))
    \<and> (r = Inr () \<longrightarrow> auto \<longrightarrow> (\<forall>j \<in> set is. ms_get E db' j A_SIZE = MAX_EMAIL_SIZE_MB))"
    using assms
  proof (induction "is" arbitrary: db w)
    case (Cons i "is")
    show ?case
    proof (cases "verify_result (ms_interp E) (net (sent w))")
      case (Inr x)
      show ?thesis
      proof (cases auto)
        case True
        show ?thesis
        proof (cases "ms_write E db [i] [(A_SIZE, MAX_EMAIL_SIZE_MB)]")
          case (Inl e)
          with Cons.prems Inr True show ?thesis by (auto simp: verify_request_eq)
        next
          case w: (Inr db1)
          with Cons.prems Inr True have "test_tokens E net auto (db1, w\<lparr>sent := Suc (sent w), events := events w @ check_events E db i\<rparr>) is = ((db', w'), r)"
            by (simp add: verify_request_eq)
          from Cons.IH [OF this] size_write [OF w] True show ?thesis by auto
        qed
      next
        case False
        with Cons.prems Inr have "test_tokens E net auto (db, w\<lparr>sent := Suc (sent w), events := events w @ check_events E db i\<rparr>) is = ((db', w'), r)"
          by (simp add: verify_request_eq)
        from Cons.IH [OF this] False show ?thesis by auto
      qed
    qed (use Cons.prems in \<open>auto simp: verify_request_eq\<close>)
  qed auto
  then show "stored f \<Longrightarrow> f \<noteq> A_SIZE \<Longrightarrow> ms_get E db' j f = ms_get E db j f"
    and "auto \<Longrightarrow> ms_get E db j A_SIZE = MAX_EMAIL_SIZE_MB \<Longrightarrow> ms_get E db' j A_SIZE = MAX_EMAIL_SIZE_MB"
    and "r = Inr () \<Longrightarrow> auto \<Longrightarrow> j \<in> set is \<Longrightarrow> ms_get E db' j A_SIZE = MAX_EMAIL_SIZE_MB"
    by auto
qed

text \<open>The requests: those of the first \<open>n\<close> servers, and the last of them is the one that fails.\<close>

lemma test_tokens_trace:
  assumes "test_tokens E net auto (db, w) is = ((db', w'), r)"
  shows "\<exists>n \<le> length is.
      sent w' = sent w + n \<and> events w' = events w @ concat (map (check_events E db') (take n is))
      \<and> check_outcome E net auto db' (sent w) is r n"
  using assms
proof (induction "is" arbitrary: db w)
  case (Cons i "is")
  let ?w1 = "w\<lparr>sent := Suc (sent w), events := events w @ check_events E db i\<rparr>"
  show ?case
  proof (cases "verify_result (ms_interp E) (net (sent w))")
    case (Inl x)
    with Cons.prems have "db' = db" "w' = ?w1" "r = Inl (test_failed E db i x)"
      by (auto simp: verify_request_eq)
    with Inl show ?thesis by (intro exI [of _ 1]) (simp add: check_outcome_def)
  next
    case (Inr x)
    then have v: "verified E (net (sent w))" by (simp add: verified_def)
    have c: "check_events E db' i = check_events E db i"
      using test_tokens_fields(1) [OF Cons.prems] by (intro check_events_cong) simp
    have step: ?thesis if t: "test_tokens E net auto (db1, ?w1) is = ((db', w'), r)" for db1
    proof -
      from Cons.IH [OF t] obtain n where n: "n \<le> length is"
        "sent w' = Suc (sent w) + n" "events w' = events w @ check_events E db i @ concat (map (check_events E db') (take n is))"
        "check_outcome E net auto db' (Suc (sent w)) is r n" by auto
      with check_outcome_Cons [of E net "sent w" auto db' "is" r n i] v show ?thesis
        by (intro exI [of _ "Suc n"]) (simp add: c)
    qed
    show ?thesis
    proof (cases auto)
      case True
      show ?thesis
      proof (cases "ms_write E db [i] [(A_SIZE, MAX_EMAIL_SIZE_MB)]")
        case (Inl e)
        with Cons.prems Inr True have "db' = db" "w' = ?w1" "r = Inl e"
          by (auto simp: verify_request_eq)
        with True show ?thesis by (intro exI [of _ 1]) (simp add: check_outcome_def)
      next
        case (Inr db1)
        with Cons.prems \<open>verify_result (ms_interp E) (net (sent w)) = Inr x\<close> True
        have "test_tokens E net auto (db1, ?w1) is = ((db', w'), r)" by (simp add: verify_request_eq)
        then show ?thesis by (rule step)
      qed
    next
      case False
      with Cons.prems Inr have "test_tokens E net auto (db, ?w1) is = ((db', w'), r)" by (simp add: verify_request_eq)
      then show ?thesis by (rule step)
    qed
  qed
qed (auto simp: check_outcome_def)

end

context mail_store begin

lemma run_config: "servers_ok E db \<Longrightarrow> servers_ok E (fst (run_steps (ms_step E) db ops))"
  by (rule config.run_keeps) (simp_all add: list_all_iff)

end

section \<open>The session connect returns\<close>

lemma session_events_ok:
  assumes "\<forall>ev \<in> set evs. event_ok (new_session acct token ff sf name) ev"
  shows "list_all (\<lambda>ev. case ev of
      HttpPost url body headers timeout \<Rightarrow>
        url = SEND_URL acct \<and> (lit ''Authorization'', lit ''Bearer '' @ token) \<in> set headers
        \<and> length body \<le> 5 * 1024 * 1024
    | HttpGet url headers timeout \<Rightarrow> False
    | _ \<Rightarrow> True) evs"
  unfolding list_all_iff
proof
  fix ev assume "ev \<in> set evs"
  with assms have "event_ok (new_session acct token ff sf name) ev" ..
  then show "case ev of
      HttpPost url body headers timeout \<Rightarrow>
        url = SEND_URL acct \<and> (lit ''Authorization'', lit ''Bearer '' @ token) \<in> set headers
        \<and> length body \<le> 5 * 1024 * 1024
    | HttpGet url headers timeout \<Rightarrow> False
    | _ \<Rightarrow> True"
    by (cases ev) (simp_all add: event_ok_def new_session_def MAX_BODY_BYTES_def del: lit_simps)
qed

lemma ms_connect_session:
  assumes "ms_connect E test db a = Inr (CloudflareConnection s)"
  obtains i where "test = False" "fst (chosen_server E db a) = Some i" "uses_cloudflare E db i"
    "a_allow_archived a \<or> truthy (ms_get E db i A_ACTIVE)"
    "s = cloudflare_session E db i (snd (chosen_server E db a))"
  using assms
  by (auto simp: ms_connect_def Let_def bindR_Inr_iff split: if_splits option.splits prod.splits)

lemma servers_ok_credentials:
  assumes "servers_ok E db" "i \<in> set (o_ids (ms_orm E) db)" "uses_cloudflare E db i"
  shows "credentials_present E db i"
  using assms by (simp add: servers_ok_def list_all_iff)

section \<open>The servers in memory\<close>

definition mail_default :: "pystr \<Rightarrow> json" where
  "mail_default f = (if f = A_AUTH then JStr (lit ''login'') else if f = A_ACTIVE then JBool True else JBool False)"

definition memory_mail :: "(memory, unit) ms_env" where
  "memory_mail =
     \<lparr>ms_orm = memory_orm mail_default (\<lambda>m. True), ms_interp = plain_interp, ms_tr = (\<lambda>t args. t),
      ms_find = (\<lambda>m from. (case mem_ids m of [] \<Rightarrow> None | i # _ \<Rightarrow> Some i, from)),
      ms_core_connect = (\<lambda>m a. Inr ()), ms_core_test = (\<lambda>m ids auto. (m, Inr JNull)),
      ms_core_size = (\<lambda>m i. JInt 10), ms_human_size = (\<lambda>v. lit ''5.00 MB'')\<rparr>"

lemma memory_mail_orm [simp]: "ms_orm memory_mail = memory_orm mail_default (\<lambda>m. True)"
  by (simp add: memory_mail_def del: lit_simps)

interpretation memory_mail: mail_store memory_mail "\<lambda>f. True"
proof -
  have "orm_laws (ms_orm memory_mail) (\<lambda>f. True) (\<lambda>db. True)"
    unfolding memory_mail_orm by (rule memory.orm_laws_axioms)
  then show "mail_store memory_mail (\<lambda>f. True)"
    by (simp add: mail_store_def mail_store_axioms_def)
qed

definition sample_server :: vals where
  "sample_server = [(A_AUTH, CF_AUTH), (A_ACCOUNT, JStr (lit ''acct'')), (A_TOKEN, JStr (lit ''tok'')),
     (A_FILTER, JStr (lit ''example.com''))]"

definition sample_args :: connect_args where
  "sample_args = \<lparr>a_host = JNull, a_port = JNull, a_user = JNull, a_password = JNull, a_encryption = JNull,
     a_smtp_from = JNull, a_ssl_certificate = JNull, a_ssl_private_key = JNull, a_smtp_debug = False,
     a_mail_server_id = None, a_allow_archived = False\<rparr>"

lemma sample_server_get:
  "ms_get memory_mail [(1, sample_server)] 1 A_AUTH = CF_AUTH"
  "ms_get memory_mail [(1, sample_server)] 1 A_ACCOUNT = JStr (lit ''acct'')"
  "ms_get memory_mail [(1, sample_server)] 1 A_TOKEN = JStr (lit ''tok'')"
  "ms_get memory_mail [(1, sample_server)] 1 A_FILTER = JStr (lit ''example.com'')"
  "ms_get memory_mail [(1, sample_server)] 1 A_ACTIVE = JBool True"
  by (simp_all add: ms_get_def memory_orm_def mem_get_def written_def sample_server_def mail_field_defs lit_inject
      mail_default_def del: lit_simps)

lemma sample_uses: "uses_cloudflare memory_mail [(1, sample_server)] 1"
  by (simp only: uses_cloudflare_def sample_server_get)

lemma sample_created: "fst (run_steps (ms_step memory_mail) [] [MsCreate [sample_server]]) = [(1, sample_server)]"
proof -
  have "check_cloudflare_credentials memory_mail [(1, sample_server)] [1] = Inr ()"
    by (simp add: check_credentials_Inr credentials_present_def sample_server_get [unfolded One_nat_def] lit_def)
  then show ?thesis
    by (simp add: ms_step_def ms_create_def memory_orm_def mem_create_def fresh_def)
qed

lemma sample_connect:
  "ms_connect memory_mail False [(1, sample_server)] sample_args
     = Inr (CloudflareConnection (cloudflare_session memory_mail [(1, sample_server)] 1 JNull))"
  "fst (chosen_server memory_mail [(1, sample_server)] sample_args) = Some 1"
proof -
  have c: "chosen_server memory_mail [(1, sample_server)] sample_args = (Some 1, JNull)"
    by (simp add: chosen_server_def sample_args_def memory_mail_def mem_ids_def)
  then show "fst (chosen_server memory_mail [(1, sample_server)] sample_args) = Some 1" by simp
  show "ms_connect memory_mail False [(1, sample_server)] sample_args
     = Inr (CloudflareConnection (cloudflare_session memory_mail [(1, sample_server)] 1 JNull))"
    using sample_uses by (simp add: ms_connect_def c [unfolded One_nat_def] sample_server_get [unfolded One_nat_def])
qed

definition active_answer :: reply where
  "active_answer = Answer \<lparr>status_code = 200,
     body_json = Some (JObj [(lit ''success'', JBool True), (lit ''result'', JObj [(lit ''status'', JStr (lit ''active''))])]),
     retry_header = None\<rparr>"

lemma active_answer_verified:
  "verify_result U active_answer = Inr (JObj [(lit ''status'', JStr (lit ''active''))])"
  by (simp add: active_answer_def verify_result_def parse_json_def py_or_def lit_inject del: lit_simps)

section \<open>Properties\<close>

text \<open>
  C8. No Cloudflare server sends without credentials: whatever sequence of creations and
  writes the servers went through, a session that \<open>connect\<close> returns belongs to a server that
  is not archived (unless that was allowed) and has an account, a token and a filter; and all
  that any batch of messages makes this session do is to post to that account's URL with that
  token, bodies of at most 5 MiB, at most three times per message.
\<close>

theorem session_has_credentials:
  assumes "mail_store E stored" and "servers_ok E db0"
    and "db = fst (run_steps (ms_step E) db0 ops)"
    and "fst (chosen_server E db a) \<in> insert None (Some ` set (o_ids (ms_orm E) db))"
    and "ms_connect E test db a = Inr (CloudflareConnection s)"
  shows "\<exists>i. uses_cloudflare E db i \<and> credentials_present E db i
      \<and> (a_allow_archived a \<or> truthy (ms_get E db i A_ACTIVE))
      \<and> list_all (\<lambda>ev. case ev of
            HttpPost url body headers timeout \<Rightarrow>
              url = SEND_URL (py_str (ms_interp E) (ms_get E db i A_ACCOUNT))
              \<and> (lit ''Authorization'', lit ''Bearer '' @ py_str (ms_interp E) (ms_get E db i A_TOKEN)) \<in> set headers
              \<and> length body \<le> 5 * 1024 * 1024
          | HttpGet url headers timeout \<Rightarrow> False
          | _ \<Rightarrow> True)
          (events (snd (fst (run_steps (send_message M net) (s, \<lparr>sent = 0, events = []\<rparr>) calls))))
      \<and> sent (snd (fst (run_steps (send_message M net) (s, \<lparr>sent = 0, events = []\<rparr>) calls))) \<le> 3 * length calls"
proof -
  have ok: "servers_ok E db"
    using mail_store.run_config [OF assms(1,2)] by (simp add: assms(3))
  obtain i where i: "fst (chosen_server E db a) = Some i" "uses_cloudflare E db i"
    "a_allow_archived a \<or> truthy (ms_get E db i A_ACTIVE)"
    "s = cloudflare_session E db i (snd (chosen_server E db a))"
    using assms(5) by (rule ms_connect_session)
  with assms(4) servers_ok_credentials [OF ok, of i] have c: "credentials_present E db i" by auto
  let ?run = "run_steps (send_message M net) (s, \<lparr>sent = 0, events = []\<rparr>) calls"
  obtain s' w rs where run: "?run = ((s', w), rs)" by (metis surj_pair)
  note batch = new_session_batch [OF run [unfolded i(4) cloudflare_session_def]]
  from session_events_ok [OF batch(1)] batch(2) i(2,3) c show ?thesis
    unfolding run fst_conv snd_conv by blast
qed

theorem session_has_credentials_witness:
  "\<forall>M net calls.
     sent (snd (fst (run_steps (send_message M net)
       (cloudflare_session memory_mail [(1, sample_server)] 1 JNull, \<lparr>sent = 0, events = []\<rparr>) calls))) \<le> 3 * length calls"
proof (intro allI)
  fix M net calls
  have "servers_ok memory_mail []" by (simp add: servers_ok_def memory_orm_def mem_ids_def)
  note ok = this
  have "fst (chosen_server memory_mail [(1, sample_server)] sample_args)
      \<in> insert None (Some ` set (o_ids (ms_orm memory_mail) [(1, sample_server)]))"
    unfolding sample_connect(2) by (simp add: memory_orm_def mem_ids_def)
  from session_has_credentials [OF memory_mail.mail_store_axioms ok sample_created [symmetric] this sample_connect(1), of M net calls]
  show "sent (snd (fst (run_steps (send_message M net)
       (cloudflare_session memory_mail [(1, sample_server)] 1 JNull, \<lparr>sent = 0, events = []\<rparr>) calls))) \<le> 3 * length calls"
    by blast
qed

text \<open>
  C29. The test of the connection: unless core's test of the other servers fails first, the
  tokens of the Cloudflare servers are checked in order, each with one GET that carries that
  server's own token and a closed session afterwards, up to the first that does not verify.
  It succeeds if and only if all verify (and the detected sizes can be written, which are
  then 5.0 for all of them); an error of the API is reported for the server it is about.
\<close>

theorem connection_test_exact:
  assumes "mail_store E stored"
    and "test_smtp_connection E net auto (db, w) ids = ((db', w'), res)"
    and "cfs = filter (uses_cloudflare E db) ids" and "cfs \<noteq> []"
    and "others = filter (\<lambda>i. \<not> uses_cloudflare E db i) ids"
    and "core = (if others \<noteq> [] then ms_core_test E db others auto else (db, Inr JNull))"
  shows "case snd core of
      Inl e \<Rightarrow> res = Inl e \<and> w' = w \<and> db' = fst core
    | Inr _ \<Rightarrow>
        \<exists>n \<le> length cfs.
          sent w' = sent w + n \<and> events w' = events w @ concat (map (check_events E db') (take n cfs))
          \<and> (case res of
               Inr answer \<Rightarrow>
                 n = length cfs \<and> (\<forall>k < n. verified E (net (sent w + k)))
                 \<and> answer = notification (test_message E auto db' ids)
                 \<and> (auto \<longrightarrow> list_all (\<lambda>i. ms_get E db' i A_SIZE = MAX_EMAIL_SIZE_MB) cfs)
             | Inl e \<Rightarrow>
                 0 < n \<and> (\<forall>k < n - 1. verified E (net (sent w + k)))
                 \<and> (auto \<or> (\<exists>x. verify_result (ms_interp E) (net (sent w + (n - 1))) = Inl x
                                   \<and> e = test_failed E db' (cfs ! (n - 1)) x)))"
proof -
  have eq: "test_smtp_connection E net auto (db, w) ids =
    (case core of
       (db1, Inl e) \<Rightarrow> ((db1, w), Inl e)
     | (db1, Inr _) \<Rightarrow>
         (case test_tokens E net auto (db1, w) cfs of
            (dw2, Inl e) \<Rightarrow> (dw2, Inl e)
          | (dw2, Inr _) \<Rightarrow> (dw2, Inr (notification (test_message E auto (fst dw2) ids)))))"
    using assms(4) unfolding test_smtp_connection_def assms(3,5,6) Let_def prod.case by (simp only: if_False)
  obtain db1 r1 where core: "core = (db1, r1)" by fastforce
  show ?thesis
  proof (cases r1)
    case (Inl e)
    with assms(2) show ?thesis unfolding eq core by auto
  next
    case (Inr v)
    obtain dw r where t: "test_tokens E net auto (db1, w) cfs = (dw, r)" by fastforce
    have run: "dw = (db', w') \<and> res = (case r of Inl e \<Rightarrow> Inl e | Inr u \<Rightarrow> Inr (notification (test_message E auto db' ids)))"
      using assms(2) unfolding eq core Inr prod.case sum.case t by (auto split: sum.splits)
    with t have t': "test_tokens E net auto (db1, w) cfs = ((db', w'), r)" by simp
    from mail_store.test_tokens_trace [OF assms(1) t'] mail_store.test_tokens_fields(3) [OF assms(1) t'] run show ?thesis
      unfolding core Inr check_outcome_def by (cases r) (auto simp: list_all_iff)
  qed
qed

theorem connection_test_exact_witness:
  "\<exists>db' w'. test_smtp_connection memory_mail (\<lambda>n. active_answer) False ([(1, sample_server)], \<lparr>sent = 0, events = []\<rparr>) [1]
      = ((db', w'), Inr (notification (lit ''Connection Test Successful!'')))
     \<and> sent w' = 1 \<and> events w' = check_events memory_mail db' 1"
proof -
  let ?w = "\<lparr>sent = 0, events = []\<rparr> :: world"
  obtain db' w' res where t: "test_smtp_connection memory_mail (\<lambda>n. active_answer) False ([(1, sample_server)], ?w) [1] = ((db', w'), res)"
    by (metis surj_pair)
  have f: "[1] = filter (uses_cloudflare memory_mail [(1, sample_server)]) [1]"
    "[] = filter (\<lambda>i. \<not> uses_cloudflare memory_mail [(1, sample_server)] i) [1]"
    using sample_uses by simp_all
  have "test_message memory_mail False db' [1] = lit ''Connection Test Successful!''"
    by (simp add: test_message_def memory_mail_def)
  with connection_test_exact [OF memory_mail.mail_store_axioms t f(1) _ f(2) refl] show ?thesis
    unfolding t by (auto simp: active_answer_verified split: sum.splits)
qed

end
