(* ===== verification/Envelope.thy ===== *)
theory Envelope
  imports PyJson
begin

text \<open>
  The envelope of an inbound message, from the Worker's request headers into the message:
  \<open>asciiValue\<close> of the Worker (\<open>inbox-do.ts\<close>), and \<open>_cloudflare_check_envelope\<close>,
  \<open>_existing_header_names\<close> and \<open>_cloudflare_prepare_message\<close> of \<open>fetchmail_server.py\<close>.
\<close>

section \<open>urllib.parse.unquote\<close>

definition hex_value :: "nat \<Rightarrow> nat option" where
  "hex_value c =
     (if 48 \<le> c \<and> c \<le> 57 then Some (c - 48)
      else if 65 \<le> c \<and> c \<le> 70 then Some (c - 55)
      else if 97 \<le> c \<and> c \<le> 102 then Some (c - 87)
      else None)"

text \<open>The bytes of an ASCII string: a percent sign and two hexadecimal digits are one byte.\<close>

fun unquote_bytes :: "pystr \<Rightarrow> bytes" where
  "unquote_bytes (c # a # b # s) =
     (if c = 37 then
        (case (hex_value a, hex_value b) of
           (Some h, Some l) \<Rightarrow> oct (16 * h + l) # unquote_bytes s
         | _ \<Rightarrow> oct 37 # unquote_bytes (a # b # s))
      else oct c # unquote_bytes (a # b # s))"
| "unquote_bytes s = map oct s"

text \<open>Runs of ASCII are decoded, the characters between them are kept.\<close>

function unquote_parts :: "pystr \<Rightarrow> pystr" where
  "unquote_parts [] = []"
| "unquote_parts (c # s) =
     (if c < 128 then
        decode_replace (unquote_bytes (takeWhile (\<lambda>x. x < 128) (c # s)))
        @ unquote_parts (dropWhile (\<lambda>x. x < 128) s)
      else c # unquote_parts s)"
  by pat_completeness auto
termination
  by (relation "measure length") (auto simp: le_imp_less_Suc length_dropWhile_le)

definition unquote :: "pystr \<Rightarrow> pystr" where
  "unquote s = (if 37 \<in> set s then unquote_parts s else s)"

section \<open>The header block\<close>

text \<open>A match of \<open>\r?\n\r?\n\<close> at the start.\<close>

fun block_end :: "bytes \<Rightarrow> bool" where
  "block_end (a # b # c # d # r) \<longleftrightarrow>
     a = 13 \<and> b = 10 \<and> c = 13 \<and> d = 10 \<or> a = 13 \<and> b = 10 \<and> c = 10
     \<or> a = 10 \<and> b = 13 \<and> c = 10 \<or> a = 10 \<and> b = 10"
| "block_end (a # b # c # r) \<longleftrightarrow> a = 13 \<and> b = 10 \<and> c = 10 \<or> a = 10 \<and> b = 13 \<and> c = 10 \<or> a = 10 \<and> b = 10"
| "block_end (a # b # r) \<longleftrightarrow> a = 10 \<and> b = 10"
| "block_end r \<longleftrightarrow> False"

text \<open>\<open>body[: match.start()] if match else body\<close>\<close>

fun header_head :: "bytes \<Rightarrow> bytes" where
  "header_head [] = []"
| "header_head (c # r) = (if block_end (c # r) then [] else c # header_head r)"

text \<open>The stretches between line feeds: \<open>^\<close> of a multi-line pattern matches at their starts.\<close>

fun lines_of :: "bytes \<Rightarrow> bytes list" where
  "lines_of [] = [[]]"
| "lines_of (c # r) =
     (if c = 10 then [] # lines_of r
      else case lines_of r of l # ls \<Rightarrow> (c # l) # ls | [] \<Rightarrow> [[c]])"

definition name_byte :: "byte \<Rightarrow> bool" where
  "name_byte c \<longleftrightarrow> 0x21 \<le> c \<and> c \<le> 0x7E \<and> c \<noteq> 0x3A"

text \<open>\<open>^([\x21-\x39\x3b-\x7e]+):\<close> on one line\<close>

definition line_name :: "bytes \<Rightarrow> bytes option" where
  "line_name l =
     (let n = takeWhile name_byte l in
      if n \<noteq> [] \<and> drop (length n) l \<noteq> [] \<and> hd (drop (length n) l) = 0x3A then Some n else None)"

definition ascii_name :: "bytes \<Rightarrow> pystr" where
  "ascii_name n = map (\<lambda>b. ascii_lower (unat b)) n"

definition existing_header_names :: "bytes \<Rightarrow> pystr set" where
  "existing_header_names body =
     ascii_name ` set (List.map_filter line_name (lines_of (header_head body)))"

section \<open>_cloudflare_check_envelope and _cloudflare_prepare_message\<close>

definition envelope_forbidden :: "nat \<Rightarrow> bool" where
  "envelope_forbidden c \<longleftrightarrow> c \<le> 0x1F \<or> c = 0x7F"

definition check_envelope :: "string \<Rightarrow> pystr option \<Rightarrow> pystr option py" where
  "check_envelope name value =
     (case value of
        None \<Rightarrow> Inr None
      | Some v \<Rightarrow>
          let u = unquote v in
          if list_ex envelope_forbidden u
          then Inl (ValueError (lit ''Invalid '' @ lit name @ lit '' address: control characters''))
          else Inr (Some (strip u)))"

datatype body_arg = BodyText pystr | BodyBytes bytes

definition body_bytes :: "body_arg \<Rightarrow> bytes py" where
  "body_bytes b = (case b of BodyText s \<Rightarrow> encode_py s | BodyBytes r \<Rightarrow> Inr r)"

definition delivered_to :: pystr where "delivered_to = lit ''delivered-to''"

definition return_path :: pystr where "return_path = lit ''return-path''"

definition CRLF :: pystr where "CRLF = [13, 10]"

definition envelope_lines :: "pystr set \<Rightarrow> pystr option \<Rightarrow> pystr option \<Rightarrow> pystr list" where
  "envelope_lines present envelope_from envelope_to =
     (case envelope_to of
        None \<Rightarrow> []
      | Some t \<Rightarrow> if t \<noteq> [] \<and> delivered_to \<notin> present then [lit ''Delivered-To: '' @ t] else [])
     @ (case envelope_from of
          None \<Rightarrow> []
        | Some f \<Rightarrow> if return_path \<notin> present then [lit ''Return-Path: <'' @ f @ lit ''>''] else [])"

definition prepare_message :: "body_arg \<Rightarrow> pystr option \<Rightarrow> pystr option \<Rightarrow> bytes py" where
  "prepare_message b envelope_from envelope_to =
     bindR (body_bytes b) (\<lambda>body.
     bindR (check_envelope ''envelope-from'' envelope_from) (\<lambda>ef.
     bindR (check_envelope ''envelope-to'' envelope_to) (\<lambda>et.
       let lines = envelope_lines (existing_header_names body) ef et in
       if lines = [] then Inr body
       else bindR (encode_py (concat (map (\<lambda>l. l @ CRLF) lines))) (\<lambda>added. Inr (added @ body)))))"

section \<open>asciiValue of the Worker\<close>

text \<open>
  A JavaScript string is its UTF-16 code units. The class of the regular expression is
  printable ASCII without the percent sign, and without the \<open>u\<close> flag it matches one code
  unit at a time; \<open>encodeURIComponent\<close> of half a surrogate pair throws \<open>URIError\<close>
  (\<open>None\<close>).
\<close>

fun utf16 :: "pystr \<Rightarrow> nat list" where
  "utf16 [] = []"
| "utf16 (c # s) =
     (if c < 0x10000 then c # utf16 s
      else (0xD800 + (c - 0x10000) div 1024) # (0xDC00 + (c - 0x10000) mod 1024) # utf16 s)"

definition ascii_safe :: "nat \<Rightarrow> bool" where
  "ascii_safe c \<longleftrightarrow> (0x20 \<le> c \<and> c \<le> 0x24) \<or> (0x26 \<le> c \<and> c \<le> 0x7E)"

definition hex_upper :: "nat \<Rightarrow> nat" where
  "hex_upper n = (if n < 10 then 48 + n else 55 + n)"

definition percent :: "byte \<Rightarrow> pystr" where
  "percent b = [37, hex_upper (unat b div 16), hex_upper (unat b mod 16)]"

definition encode_unit :: "nat \<Rightarrow> pystr option" where
  "encode_unit u =
     (if ascii_safe u then Some [u] else map_option (\<lambda>bs. concat (map percent bs)) (utf8_char u))"

fun ascii_value :: "nat list \<Rightarrow> pystr option" where
  "ascii_value [] = Some []"
| "ascii_value (u # us) =
     (case encode_unit u of None \<Rightarrow> None
      | Some p \<Rightarrow> (case ascii_value us of None \<Rightarrow> None | Some q \<Rightarrow> Some (p @ q)))"

text \<open>A string a mail system can hold: no lone surrogate.\<close>

definition scalar :: "nat \<Rightarrow> bool" where
  "scalar c \<longleftrightarrow> c < 0xD800 \<or> (0xDFFF < c \<and> c < 0x110000)"

section \<open>Percent coding\<close>

lemma hex_upper_value: "n < 16 \<Longrightarrow> hex_value (hex_upper n) = Some n"
  by (auto simp: hex_value_def hex_upper_def)

lemma hex_upper_ascii: "n < 16 \<Longrightarrow> hex_upper n < 128"
  by (simp add: hex_upper_def)

lemma unquote_bytes_percent: "unquote_bytes (percent b @ t) = b # unquote_bytes t"
proof -
  have "unat b div 16 < 16" using unat_byte_lt [of b] by (simp add: less_mult_imp_div_less)
  then have "hex_value (hex_upper (unat b div 16)) = Some (unat b div 16)"
    and "hex_value (hex_upper (unat b mod 16)) = Some (unat b mod 16)"
    by (simp_all add: hex_upper_value)
  then show ?thesis by (simp add: percent_def oct_def)
qed

lemma unquote_bytes_plain: "c \<noteq> 37 \<Longrightarrow> unquote_bytes (c # t) = oct c # unquote_bytes t"
  by (cases "c # t" rule: unquote_bytes.cases) auto

lemma unquote_bytes_unit:
  assumes "encode_unit u = Some p"
  shows "\<exists>b. utf8_char u = Some b \<and> unquote_bytes (p @ t) = b @ unquote_bytes t"
proof (cases "ascii_safe u")
  case True
  then have "u < 128" "u \<noteq> 37" by (auto simp: ascii_safe_def)
  with True assms show ?thesis
    by (auto simp: encode_unit_def utf8_char_low unquote_bytes_plain)
next
  case False
  with assms obtain b where b: "utf8_char u = Some b" "p = concat (map percent b)"
    by (auto simp: encode_unit_def)
  have "unquote_bytes (concat (map percent b) @ t) = b @ unquote_bytes t"
    by (induction b) (simp_all add: unquote_bytes_percent)
  with b show ?thesis by simp
qed

lemma unquote_bytes_value:
  "ascii_value us = Some v \<Longrightarrow> \<exists>b. encode us = Some b \<and> unquote_bytes v = b"
proof (induction us arbitrary: v)
  case (Cons u us)
  then obtain p q where p: "encode_unit u = Some p" and q: "ascii_value us = Some q" and v: "v = p @ q"
    by (auto split: option.splits)
  from Cons.IH [OF q] unquote_bytes_unit [OF p, of q] v show ?case by auto
qed simp

lemma encode_unit_ascii: "encode_unit u = Some p \<Longrightarrow> ascii p"
proof -
  have "ascii (percent b)" for b
  proof -
    have "unat b div 16 < 16" using unat_byte_lt [of b] by (simp add: less_mult_imp_div_less)
    then show ?thesis by (simp add: percent_def hex_upper_ascii)
  qed
  then have "ascii (concat (map percent bs))" for bs by (induction bs) simp_all
  then show "encode_unit u = Some p \<Longrightarrow> ascii p"
    by (auto simp: encode_unit_def ascii_safe_def split: if_splits)
qed

lemma ascii_value_ascii: "ascii_value us = Some v \<Longrightarrow> ascii v"
  by (induction us arbitrary: v) (auto dest: encode_unit_ascii split: option.splits)

lemma ascii_value_no_percent: "ascii_value us = Some v \<Longrightarrow> 37 \<notin> set v \<Longrightarrow> v = us"
proof (induction us arbitrary: v)
  case (Cons u us)
  then obtain p q where p: "encode_unit u = Some p" and q: "ascii_value us = Some q" and v: "v = p @ q"
    by (auto split: option.splits)
  have "utf8_char u = Some bs \<Longrightarrow> bs \<noteq> []" for bs
    by (auto simp: utf8_char_def split: if_splits)
  then have "p = [u]"
    using p Cons.prems(2) v by (auto simp: encode_unit_def percent_def neq_Nil_conv split: if_splits)
  with Cons q v show ?case by auto
qed simp

lemma unquote_parts_ascii:
  assumes "ascii v"
  shows "unquote_parts v = decode_replace (unquote_bytes v)"
proof (cases v)
  case (Cons c s)
  with assms have c: "c < 128" and all: "\<forall>x \<in> set s. x < 128" by (simp_all add: ascii_def)
  from all have tw: "takeWhile (\<lambda>x. x < 128) s = s" and dw: "dropWhile (\<lambda>x. x < 128) s = []"
    by (simp_all only: takeWhile_eq_all_conv dropWhile_eq_Nil_conv)
  have "unquote_parts (c # s) = decode_replace (unquote_bytes (c # takeWhile (\<lambda>x. x < 128) s))
      @ unquote_parts (dropWhile (\<lambda>x. x < 128) s)"
    using c by simp
  then show ?thesis by (simp only: Cons tw dw unquote_parts.simps append_Nil2)
qed simp

text \<open>What the Worker writes is what the module reads back.\<close>

lemma unquote_ascii_value:
  assumes "ascii_value us = Some v"
  shows "unquote v = us"
proof (cases "37 \<in> set v")
  case True
  obtain b where "encode us = Some b" "unquote_bytes v = b"
    using unquote_bytes_value [OF assms] by blast
  with True show ?thesis
    using unquote_parts_ascii [OF ascii_value_ascii [OF assms]]
    by (simp add: unquote_def decode_encode)
next
  case False
  with ascii_value_no_percent [OF assms] show ?thesis by (simp add: unquote_def)
qed

lemma utf8_char_scalar: "scalar c \<longleftrightarrow> utf8_char c \<noteq> None"
  by (auto simp: scalar_def utf8_char_def)

lemma ascii_value_bmp:
  assumes "list_all scalar s"
  shows "ascii_value (utf16 s) \<noteq> None \<longleftrightarrow> list_all (\<lambda>c. c < 0x10000) s"
  using assms
proof (induction s)
  case (Cons c s)
  show ?case
  proof (cases "c < 0x10000")
    case True
    with Cons.prems have "encode_unit c \<noteq> None"
      by (auto simp: encode_unit_def utf8_char_scalar)
    with Cons True show ?thesis by (auto split: option.splits)
  next
    case False
    let ?u = "0xD800 + (c - 0x10000) div 1024"
    have "c < 0x110000" using Cons.prems False by (auto simp: scalar_def)
    then have "(c - 0x10000) div 1024 < 1024" by (simp add: less_mult_imp_div_less)
    then have "encode_unit ?u = None"
      by (simp add: encode_unit_def ascii_safe_def utf8_char_def)
    with False show ?thesis by simp
  qed
qed simp

lemma utf16_bmp: "list_all (\<lambda>c. c < 0x10000) s \<Longrightarrow> utf16 s = s"
  by (induction s) simp_all

section \<open>Lines put before a message\<close>

definition no_newline :: "bytes \<Rightarrow> bool" where
  "no_newline l \<longleftrightarrow> 10 \<notin> set l \<and> 13 \<notin> set l"

text \<open>The message starts with an empty line, so it has no header block at all.\<close>

definition starts_empty :: "bytes \<Rightarrow> bool" where
  "starts_empty b \<longleftrightarrow> take 1 b = [10] \<or> take 2 b = [13, 10]"

lemma block_end_first: "block_end (c # r) \<Longrightarrow> c = 10 \<or> c = 13"
  by (cases "c # r" rule: block_end.cases) auto

lemma header_head_line: "no_newline l \<Longrightarrow> header_head (l @ r) = l @ header_head r"
  by (induction l) (auto simp: no_newline_def dest: block_end_first)

lemma block_end_lf: "block_end (10 # r) \<longleftrightarrow> starts_empty r"
  by (cases "10 # r" rule: block_end.cases) (auto simp: starts_empty_def)

lemma block_end_crlf: "block_end (13 # 10 # r) \<longleftrightarrow> starts_empty r"
  by (cases "13 # 10 # r" rule: block_end.cases) (auto simp: starts_empty_def)

lemma header_head_crlf: "\<not> starts_empty r \<Longrightarrow> header_head (13 # 10 # r) = 13 # 10 # header_head r"
  by (simp add: block_end_lf block_end_crlf del: block_end.simps)

lemma lines_of_nonempty: "lines_of b \<noteq> []"
  by (induction b) (auto split: list.splits)

lemma lines_of_line: "10 \<notin> set l \<Longrightarrow> lines_of (l @ 10 # r) = l # lines_of r"
proof (induction l)
  case (Cons c l)
  then show ?case by auto
qed simp

lemma line_name_field:
  assumes "n \<noteq> []" and "list_all name_byte n"
  shows "line_name (n @ 0x3A # t) = Some n"
proof -
  have "\<not> name_byte 0x3A" by (simp add: name_byte_def)
  then have "takeWhile name_byte (n @ 0x3A # t) = n"
    using assms(2) by (simp add: takeWhile_append2 list_all_iff)
  with assms(1) show ?thesis by (simp add: line_name_def)
qed

text \<open>A field put before a message is one more field of its header.\<close>

lemma names_prepend:
  assumes "n \<noteq> []" "list_all name_byte n" "no_newline t" "\<not> starts_empty r"
  shows "existing_header_names ((n @ 0x3A # t) @ 13 # 10 # r)
    = insert (ascii_name n) (existing_header_names r)"
proof -
  have nb: "10 \<notin> set n" "13 \<notin> set n"
    using assms(2) by (auto simp: list_all_iff name_byte_def)
  have nl: "no_newline (n @ 0x3A # t)"
    using nb assms(3) by (auto simp: no_newline_def)
  have "header_head ((n @ 0x3A # t) @ 13 # 10 # r) = ((n @ 0x3A # t) @ [13]) @ 10 # header_head r"
    unfolding header_head_line [OF nl] header_head_crlf [OF assms(4)] by simp
  moreover have "10 \<notin> set ((n @ 0x3A # t) @ [13])" using nl by (simp add: no_newline_def)
  note lines_of_line [OF this, of "header_head r"]
  ultimately have "lines_of (header_head ((n @ 0x3A # t) @ 13 # 10 # r))
      = ((n @ 0x3A # t) @ [13]) # lines_of (header_head r)"
    by simp
  moreover have "line_name ((n @ 0x3A # t) @ [13]) = Some n"
    using line_name_field [OF assms(1,2), of "t @ [13]"] by simp
  ultimately show ?thesis
    by (simp add: existing_header_names_def List.map_filter_simps)
qed

lemma not_starts_empty_field: "n \<noteq> [] \<Longrightarrow> list_all name_byte n \<Longrightarrow> \<not> starts_empty ((n @ t) @ r)"
  by (cases n) (auto simp: starts_empty_def name_byte_def)

section \<open>Control characters\<close>

definition no_control :: "bytes \<Rightarrow> bool" where
  "no_control l \<longleftrightarrow> list_all (\<lambda>x. 0x20 \<le> x \<and> x \<noteq> 0x7F) l"

lemma no_control_newline: "no_control l \<Longrightarrow> no_newline l"
  by (auto simp: no_control_def no_newline_def list_all_iff)

lemma check_envelope_Some:
  assumes "check_envelope name v = Inr (Some u)"
  shows "list_all (\<lambda>c. \<not> envelope_forbidden c) u"
  using assms set_strip
  by (fastforce simp: check_envelope_def Let_def list_all_iff list_ex_iff split: option.splits if_splits)

lemma check_envelope_None: "check_envelope name v = Inr None \<longleftrightarrow> v = None"
  by (auto simp: check_envelope_def Let_def split: option.splits)

lemma check_envelope_Inl: "check_envelope name v = Inl e \<Longrightarrow> is_value_error e"
  by (auto simp: check_envelope_def Let_def split: option.splits if_splits)

lemma encode_no_control:
  assumes "encode s = Some b" and "list_all (\<lambda>c. \<not> envelope_forbidden c) s"
  shows "no_control b"
  unfolding no_control_def list_all_iff
proof (intro ballI conjI)
  fix x assume x: "x \<in> set b"
  have low: "unat x \<in> set s" if "x < 0x80" using encode_low_byte [OF assms(1) x that] .
  show "0x20 \<le> x"
  proof (rule ccontr)
    assume "\<not> 0x20 \<le> x"
    then have n: "unat x < 0x20" by (simp add: word_le_nat_alt)
    then have "x < 0x80" by (simp add: word_less_nat_alt)
    with low assms(2) n show False by (auto simp: list_all_iff envelope_forbidden_def)
  qed
  show "x \<noteq> 0x7F"
  proof
    assume "x = 0x7F"
    with low assms(2) show False by (auto simp: list_all_iff envelope_forbidden_def)
  qed
qed

section \<open>The fields prepare_message adds\<close>

definition field_bytes :: "string \<Rightarrow> bytes \<Rightarrow> bytes" where
  "field_bytes name t = map oct (lit name) @ 0x3A # t"

definition envelope_field :: "bytes \<Rightarrow> bool" where
  "envelope_field h \<longleftrightarrow> no_control h \<and>
     (\<exists>t. h = field_bytes ''Delivered-To'' t \<or> h = field_bytes ''Return-Path'' t)"

lemma lit_ascii_names: "ascii (lit ''Delivered-To'')" "ascii (lit ''Return-Path'')"
  by simp_all

lemma encode_field:
  assumes "encode (lit name @ lit '': '' @ u) = Some h" and "ascii (lit name)"
  shows "\<exists>t. encode (lit '' '' @ u) = Some t \<and> h = field_bytes name t"
  using assms by (auto simp: encode_append_Some encode_ascii field_bytes_def utf8_char_def oct_def
      split: option.splits)

lemma encode_CRLF: "encode CRLF = Some [13, 10]"
  by (simp add: CRLF_def utf8_char_def oct_def)

lemma encode_lines:
  "encode (concat (map (\<lambda>l. l @ CRLF) ls)) = Some added \<Longrightarrow>
     \<exists>hs. list_all2 (\<lambda>l h. encode l = Some h) ls hs \<and> added = concat (map (\<lambda>h. h @ [13, 10]) hs)"
proof (induction ls arbitrary: added)
  case (Cons l ls)
  then obtain h r where h: "encode l = Some h" and r: "encode (concat (map (\<lambda>l. l @ CRLF) ls)) = Some r"
    and added: "added = (h @ [13, 10]) @ r"
    by (auto simp: encode_append_Some encode_CRLF)
  from Cons.IH [OF r] h added show ?case by auto
qed simp

section \<open>prepare_message\<close>

definition with_fields :: "bytes list \<Rightarrow> bytes \<Rightarrow> bytes" where
  "with_fields hs body = concat (map (\<lambda>h. h @ [13, 10]) hs) @ body"

lemma with_fields_simps [simp]:
  "with_fields [] body = body" "with_fields (h # hs) body = h @ 13 # 10 # with_fields hs body"
  by (simp_all add: with_fields_def)

lemma prepare_message_Inr:
  assumes "prepare_message b ef0 et0 = Inr out"
  obtains body ef et hs where "body_bytes b = Inr body"
    "check_envelope ''envelope-from'' ef0 = Inr ef" "check_envelope ''envelope-to'' et0 = Inr et"
    "list_all2 (\<lambda>l h. encode l = Some h) (envelope_lines (existing_header_names body) ef et) hs"
    "out = with_fields hs body"
proof -
  from assms obtain body ef et where 1: "body_bytes b = Inr body"
    "check_envelope ''envelope-from'' ef0 = Inr ef" "check_envelope ''envelope-to'' et0 = Inr et"
    by (auto simp: prepare_message_def bindR_Inr_iff)
  let ?ls = "envelope_lines (existing_header_names body) ef et"
  have "\<exists>hs. list_all2 (\<lambda>l h. encode l = Some h) ?ls hs \<and> out = with_fields hs body"
  proof (cases "?ls = []")
    case True
    with assms 1 show ?thesis by (simp add: prepare_message_def)
  next
    case False
    with assms 1 obtain a where "encode (concat (map (\<lambda>l. l @ CRLF) ?ls)) = Some a" "out = a @ body"
      by (auto simp: prepare_message_def bindR_Inr_iff encode_py_Inr_iff)
    with encode_lines [of ?ls a] show ?thesis by (auto simp: with_fields_def)
  qed
  with 1 that show thesis by blast
qed

lemma encode_envelope_field:
  assumes "encode (lit name @ lit '': '' @ u) = Some h" "name = ''Delivered-To'' \<or> name = ''Return-Path''"
    and "list_all (\<lambda>c. \<not> envelope_forbidden c) u"
  shows "envelope_field h"
proof -
  have "ascii (lit name)" using assms(2) lit_ascii_names by auto
  then obtain t where "h = field_bytes name t" using encode_field [OF assms(1)] by blast
  moreover have "list_all (\<lambda>c. \<not> envelope_forbidden c) (lit name @ lit '': '' @ u)"
    using assms(2,3) by (auto simp: envelope_forbidden_def)
  from encode_no_control [OF assms(1) this] have "no_control h" .
  ultimately show ?thesis using assms(2) by (auto simp: envelope_field_def)
qed

lemma envelope_lines_fields:
  assumes "list_all2 (\<lambda>l h. encode l = Some h) (envelope_lines present ef et) hs"
    and "\<And>u. ef = Some u \<Longrightarrow> list_all (\<lambda>c. \<not> envelope_forbidden c) u"
    and "\<And>u. et = Some u \<Longrightarrow> list_all (\<lambda>c. \<not> envelope_forbidden c) u"
  shows "list_all envelope_field hs"
proof -
  have "envelope_field h" if l: "l \<in> set (envelope_lines present ef et)" and e: "encode l = Some h" for l h
  proof -
    from l consider u where "et = Some u" "l = lit ''Delivered-To: '' @ u"
      | u where "ef = Some u" "l = lit ''Return-Path: <'' @ u @ lit ''>''"
      by (auto simp: envelope_lines_def simp del: lit_simps split: option.splits if_splits)
    then show ?thesis
    proof cases
      case 1
      then have "l = lit ''Delivered-To'' @ lit '': '' @ u" by simp
      with e assms(3) [OF 1(1)] encode_envelope_field show ?thesis by blast
    next
      case 2
      then have "l = lit ''Return-Path'' @ lit '': '' @ (lit ''<'' @ u @ lit ''>'')" by simp
      moreover have "list_all (\<lambda>c. \<not> envelope_forbidden c) (lit ''<'' @ u @ lit ''>'')"
        using assms(2) [OF 2(1)] by (simp add: envelope_forbidden_def)
      ultimately show ?thesis using e encode_envelope_field by blast
    qed
  qed
  moreover have "\<exists>l \<in> set ls. encode l = Some h"
    if "list_all2 (\<lambda>l h. encode l = Some h) ls hs'" "h \<in> set hs'" for ls hs' h
    using that by (induction rule: list_all2_induct) auto
  ultimately show ?thesis using assms(1) unfolding list_all_iff by blast
qed

lemma envelope_lines_length: "length (envelope_lines present ef et) \<le> 2"
  by (simp add: envelope_lines_def split: option.splits)

text \<open>The names of the fields of a prepared message.\<close>

definition field_name :: "bytes \<Rightarrow> pystr" where
  "field_name h = ascii_name (takeWhile name_byte h)"

lemma name_literals: "list_all name_byte (map oct (lit ''Delivered-To''))"
  "list_all name_byte (map oct (lit ''Return-Path''))"
  by (simp_all add: name_byte_def oct_def)

lemma field_shape:
  assumes "envelope_field h"
  obtains n t where "h = n @ 0x3A # t" "n \<noteq> []" "list_all name_byte n" "no_newline t" "field_name h = ascii_name n"
proof -
  from assms obtain n t where h: "h = n @ 0x3A # t" and n: "n \<noteq> []" "list_all name_byte n"
  proof -
    from assms obtain name t where "h = map oct (lit name) @ 0x3A # t"
      "name = ''Delivered-To'' \<or> name = ''Return-Path''"
      by (auto simp: envelope_field_def field_bytes_def simp del: lit_simps)
    with name_literals that [of "map oct (lit name)" t] show thesis by auto
  qed
  have "no_newline t"
    using assms no_control_newline [of h] by (auto simp: envelope_field_def h no_newline_def)
  moreover have "takeWhile name_byte h = n"
    using n(2) by (simp add: h takeWhile_append2 list_all_iff name_byte_def [of "0x3A"])
  ultimately show thesis using that h n by (simp add: field_name_def)
qed

lemma with_fields_names:
  assumes "list_all envelope_field hs" and "\<not> starts_empty body"
  shows "existing_header_names (with_fields hs body) = field_name ` set hs \<union> existing_header_names body
    \<and> \<not> starts_empty (with_fields hs body)"
  using assms(1)
proof (induction hs)
  case (Cons h hs)
  then have h: "envelope_field h" by simp
  obtain n t where nt: "h = n @ 0x3A # t" "n \<noteq> []" "list_all name_byte n" "no_newline t" "field_name h = ascii_name n"
    using field_shape [OF h] by metis
  have IH: "existing_header_names (with_fields hs body) = field_name ` set hs \<union> existing_header_names body"
    and ne: "\<not> starts_empty (with_fields hs body)" using Cons by simp_all
  have "existing_header_names (h @ 13 # 10 # with_fields hs body)
      = insert (ascii_name n) (existing_header_names (with_fields hs body))"
    using names_prepend [OF nt(2,3,4) ne] by (simp add: nt(1))
  moreover have "\<not> starts_empty (h @ 13 # 10 # with_fields hs body)"
    using not_starts_empty_field [OF nt(2,3), of "0x3A # t"] by (simp add: nt(1))
  ultimately show ?case using IH nt(5) by simp
qed (simp add: assms(2))

lemma field_names:
  "field_name (field_bytes ''Delivered-To'' t) = delivered_to"
  "field_name (field_bytes ''Return-Path'' t) = return_path"
  by (simp_all add: field_name_def field_bytes_def ascii_name_def name_byte_def oct_def delivered_to_def
      return_path_def ascii_lower_def)

lemma prepare_message_fields:
  assumes "prepare_message b ef0 et0 = Inr out"
  obtains body ef et hs where "body_bytes b = Inr body"
    "check_envelope ''envelope-from'' ef0 = Inr ef" "check_envelope ''envelope-to'' et0 = Inr et"
    "out = with_fields hs body" "length hs \<le> 2" "list_all envelope_field hs"
    "et = None \<or> et = Some [] \<or> delivered_to \<in> field_name ` set hs \<union> existing_header_names body"
    "ef = None \<or> return_path \<in> field_name ` set hs \<union> existing_header_names body"
proof -
  obtain body ef et hs where p: "body_bytes b = Inr body"
    "check_envelope ''envelope-from'' ef0 = Inr ef" "check_envelope ''envelope-to'' et0 = Inr et"
    and l: "list_all2 (\<lambda>l h. encode l = Some h) (envelope_lines (existing_header_names body) ef et) hs"
    and out: "out = with_fields hs body"
    by (rule prepare_message_Inr [OF assms])
  let ?ls = "envelope_lines (existing_header_names body) ef et"
  have enc: "\<exists>h \<in> set hs. encode x = Some h" if "x \<in> set ?ls" for x
    using l that by (induction rule: list_all2_induct) auto
  have len: "length hs \<le> 2"
    using list_all2_lengthD [OF l] envelope_lines_length [of "existing_header_names body" ef et] by simp
  have fields: "list_all envelope_field hs"
    using p check_envelope_Some by (intro envelope_lines_fields [OF l]) auto
  have d: "delivered_to \<in> field_name ` set hs \<union> existing_header_names body" if "et = Some t" "t \<noteq> []" for t
  proof (cases "delivered_to \<in> existing_header_names body")
    case False
    with that have "lit ''Delivered-To'' @ lit '': '' @ t \<in> set ?ls" by (simp add: envelope_lines_def)
    from enc [OF this] obtain h where h: "h \<in> set hs" "encode (lit ''Delivered-To'' @ lit '': '' @ t) = Some h"
      by blast
    from encode_field [OF h(2) lit_ascii_names(1)] obtain u where "h = field_bytes ''Delivered-To'' u" by blast
    with h(1) show ?thesis using field_names(1) [of u] by (metis UnI1 image_eqI)
  qed simp
  have r: "return_path \<in> field_name ` set hs \<union> existing_header_names body" if "ef = Some f" for f
  proof (cases "return_path \<in> existing_header_names body")
    case False
    with that have "lit ''Return-Path'' @ lit '': '' @ (lit ''<'' @ f @ lit ''>'') \<in> set ?ls"
      by (simp add: envelope_lines_def)
    from enc [OF this] obtain h where h: "h \<in> set hs"
      "encode (lit ''Return-Path'' @ lit '': '' @ (lit ''<'' @ f @ lit ''>'')) = Some h" by blast
    from encode_field [OF h(2) lit_ascii_names(2)] obtain u where "h = field_bytes ''Return-Path'' u" by blast
    with h(1) show ?thesis using field_names(2) [of u] by (metis UnI1 image_eqI)
  qed simp
  have "et = None \<or> et = Some [] \<or> delivered_to \<in> field_name ` set hs \<union> existing_header_names body"
    using d by (cases et) auto
  moreover have "ef = None \<or> return_path \<in> field_name ` set hs \<union> existing_header_names body"
    using r by (cases ef) auto
  ultimately show thesis by (rule that [OF p out len fields])
qed

lemma prepare_message_Inl: "prepare_message b ef et = Inl e \<Longrightarrow> is_value_error e"
  by (auto simp: prepare_message_def bindR_Inl_iff Let_def body_bytes_def encode_py_Inl_iff
      dest: check_envelope_Inl split: body_arg.splits if_splits)

section \<open>Properties\<close>


text \<open>
  For a message that has a header block, the prepared message names its envelope: it has a
  \<open>Delivered-To\<close> unless the envelope recipient is absent or blank, a \<open>Return-Path\<close> unless the
  sender is absent (an empty sender counts), and preparing it again changes nothing.
\<close>

theorem prepare_message_idempotent:
  assumes "prepare_message b ef0 et0 = Inr out" and "body_bytes b = Inr body" and "\<not> starts_empty body"
  shows "prepare_message (BodyBytes out) ef0 et0 = Inr out
    \<and> (check_envelope ''envelope-to'' et0 \<in> {Inr None, Inr (Some [])}
       \<or> delivered_to \<in> existing_header_names out)
    \<and> (ef0 = None \<or> return_path \<in> existing_header_names out)"
proof -
  obtain body' ef et hs where p: "body_bytes b = Inr body'"
    and c: "check_envelope ''envelope-from'' ef0 = Inr ef" "check_envelope ''envelope-to'' et0 = Inr et"
    and out: "out = with_fields hs body'" and "length hs \<le> 2" and f: "list_all envelope_field hs"
    and d: "et = None \<or> et = Some [] \<or> delivered_to \<in> field_name ` set hs \<union> existing_header_names body'"
    and r: "ef = None \<or> return_path \<in> field_name ` set hs \<union> existing_header_names body'"
    by (rule prepare_message_fields [OF assms(1)])
  from p assms(2,3) have "\<not> starts_empty body'" by simp
  note n = with_fields_names [OF f this, folded out, THEN conjunct1]
  have dn: "et = None \<or> et = Some [] \<or> delivered_to \<in> existing_header_names out"
    and rn: "ef = None \<or> return_path \<in> existing_header_names out"
    unfolding n by (rule d) (rule r)
  have "envelope_lines (existing_header_names out) ef et = []"
    using dn rn by (auto simp: envelope_lines_def split: option.splits)
  then have "prepare_message (BodyBytes out) ef0 et0 = Inr out"
    using c by (simp add: prepare_message_def body_bytes_def)
  moreover have "ef0 = None \<or> return_path \<in> existing_header_names out"
    using c(1) rn check_envelope_None [of "''envelope-from''" ef0] by auto
  ultimately show ?thesis using c(2) dn by auto
qed

theorem prepare_message_idempotent_witness:
  "\<exists>out. prepare_message (BodyBytes (map oct (lit ''Subject: x''))) (Some []) (Some (lit ''a'')) = Inr out
     \<and> prepare_message (BodyBytes out) (Some []) (Some (lit ''a'')) = Inr out"
proof -
  let ?b = "map oct (lit ''Subject: x'')"
  have "\<exists>out. prepare_message (BodyBytes ?b) (Some []) (Some (lit ''a'')) = Inr out"
    by (simp add: prepare_message_def body_bytes_def check_envelope_def unquote_def envelope_forbidden_def
        strip_def strip_by_def py_space_def envelope_lines_def Let_def encode_py_def utf8_char_def CRLF_def)
  then obtain out where o: "prepare_message (BodyBytes ?b) (Some []) (Some (lit ''a'')) = Inr out" ..
  have "body_bytes (BodyBytes ?b) = Inr ?b" by (simp add: body_bytes_def)
  moreover have "\<not> starts_empty ?b" by (simp add: starts_empty_def oct_def)
  ultimately show ?thesis using prepare_message_idempotent [OF o] o by blast
qed

text \<open>
  C32. The envelope survives the HTTP header: every address that the Worker can write is ASCII
  and is read back by the module exactly. A finding: \<open>asciiValue\<close> works on UTF-16 code units,
  so it throws exactly on the addresses with a character beyond U+FFFF.
\<close>

theorem envelope_transport:
  assumes "list_all scalar address"
  shows "case ascii_value (utf16 address) of
      None \<Rightarrow> list_ex (\<lambda>c. 0x10000 \<le> c) address
    | Some v \<Rightarrow> ascii v \<and> unquote v = address \<and> list_all (\<lambda>c. c < 0x10000) address"
proof (cases "ascii_value (utf16 address)")
  case None
  with ascii_value_bmp [OF assms] show ?thesis by (auto simp: list_all_iff list_ex_iff not_less)
next
  case (Some v)
  with ascii_value_bmp [OF assms] have "list_all (\<lambda>c. c < 0x10000) address" by simp
  with Some unquote_ascii_value [OF Some] ascii_value_ascii [OF Some] utf16_bmp show ?thesis by auto
qed

theorem envelope_transport_witness:
  "(\<exists>v. ascii_value (utf16 (0xE9 # lit ''%@x'')) = Some v \<and> unquote v = 0xE9 # lit ''%@x'')
   \<and> ascii_value (utf16 (0x1F389 # lit ''@x'')) = None"
  using envelope_transport [of "0xE9 # lit ''%@x''"] envelope_transport [of "0x1F389 # lit ''@x''"]
  by (auto simp: scalar_def split: option.splits)

text \<open>
  A finding: \<open>_existing_header_names\<close> takes a message that starts with an empty line, and so
  has no header at all, for one whose header is its body: a body line that looks like a
  \<open>Return-Path\<close> keeps the real one from being added.
\<close>

theorem body_line_hides_return_path:
  "prepare_message (BodyBytes ([13, 10] @ field_bytes ''Return-Path'' [] @ [13, 10])) (Some sender) None
   \<in> {Inr ([13, 10] @ field_bytes ''Return-Path'' [] @ [13, 10]),
      Inl (ValueError (lit ''Invalid envelope-from address: control characters''))}"
proof -
  let ?b = "[13, 10] @ field_bytes ''Return-Path'' [] @ [13, 10] :: bytes"
  have "existing_header_names ?b = {return_path}"
    by (simp add: existing_header_names_def field_bytes_def oct_def line_name_def name_byte_def ascii_name_def
        return_path_def ascii_lower_def List.map_filter_simps Let_def)
  then show ?thesis
    by (auto simp: prepare_message_def body_bytes_def check_envelope_def envelope_lines_def Let_def)
qed

end
