(* ===== verification/Sha256.thy ===== *)
theory Sha256
  imports PyText
begin

text \<open>
  \<open>hashlib.sha256\<close> and \<open>hmac.new(key, msg, sha256).hexdigest()\<close> on 32-bit words, as FIPS
  180-4 and RFC 2104 define them: what both ends of the webhook sign with.
\<close>

unbundle bit_operations_syntax

section \<open>SHA-256\<close>

type_synonym word32 = "32 word"

text \<open>
  The constants of the standard: the first 32 bits of the fractional parts of the square
  roots of the first 8 primes and of the cube roots of the first 64. The root of
  \<open>p * 2 ^ (32 * r)\<close> is found bit by bit; 40 bits hold it, and the word keeps the last 32.
\<close>

fun root_bits :: "nat \<Rightarrow> nat \<Rightarrow> nat \<Rightarrow> nat \<Rightarrow> nat" where
  "root_bits r n 0 a = a"
| "root_bits r n (Suc k) a = root_bits r n k (if (a + 2 ^ k) ^ r \<le> n then a + 2 ^ k else a)"

definition root_fraction :: "nat \<Rightarrow> nat \<Rightarrow> word32" where
  "root_fraction r p = of_nat (root_bits r (p * 2 ^ (32 * r)) 40 0)"

definition small_primes :: "nat list" where
  "small_primes = filter (\<lambda>n. list_all (\<lambda>d. n mod d \<noteq> 0) [2..<n]) [2..<312]"

definition sha_constants :: "word32 list" where
  "sha_constants = map (root_fraction 3) small_primes"

definition sha_initial :: "word32 list" where
  "sha_initial = map (root_fraction 2) [2, 3, 5, 7, 11, 13, 17, 19]"

definition big_sigma0 :: "word32 \<Rightarrow> word32" where
  "big_sigma0 x = word_rotr 2 x XOR word_rotr 13 x XOR word_rotr 22 x"

definition big_sigma1 :: "word32 \<Rightarrow> word32" where
  "big_sigma1 x = word_rotr 6 x XOR word_rotr 11 x XOR word_rotr 25 x"

definition small_sigma0 :: "word32 \<Rightarrow> word32" where
  "small_sigma0 x = word_rotr 7 x XOR word_rotr 18 x XOR drop_bit 3 x"

definition small_sigma1 :: "word32 \<Rightarrow> word32" where
  "small_sigma1 x = word_rotr 17 x XOR word_rotr 19 x XOR drop_bit 10 x"

text \<open>The message schedule, newest word first.\<close>

fun schedule :: "nat \<Rightarrow> word32 list \<Rightarrow> word32 list" where
  "schedule 0 ws = ws"
| "schedule (Suc n) ws =
     schedule n ((small_sigma1 (ws ! 1) + ws ! 6 + small_sigma0 (ws ! 14) + ws ! 15) # ws)"

fun sha_round :: "word32 list \<Rightarrow> word32 \<times> word32 \<Rightarrow> word32 list" where
  "sha_round [a, b, c, d, e, f, g, h] (k, w) =
     (let t1 = h + big_sigma1 e + ((e AND f) XOR (NOT e AND g)) + k + w;
          t2 = big_sigma0 a + ((a AND b) XOR (a AND c) XOR (b AND c))
      in [t1 + t2, a, b, c, d + t1, e, f, g])"
| "sha_round s p = s"

definition sha_block :: "word32 list \<Rightarrow> word32 list \<Rightarrow> word32 list" where
  "sha_block s ws =
     map2 (+) s (foldl sha_round s (zip sha_constants (rev (schedule 48 (rev ws)))))"

definition word_of_bytes :: "bytes \<Rightarrow> word32" where
  "word_of_bytes bs = foldl (\<lambda>a b. push_bit 8 a OR ucast b) 0 bs"

text \<open>The pieces of length n of a list that is a whole number of them.\<close>

definition chunks :: "nat \<Rightarrow> 'a list \<Rightarrow> 'a list list" where
  "chunks n xs = map (\<lambda>i. take n (drop (i * n) xs)) [0..<length xs div n]"

definition big_endian :: "nat \<Rightarrow> nat \<Rightarrow> bytes" where
  "big_endian k n = map (\<lambda>i. oct (n div 256 ^ i mod 256)) (rev [0..<k])"

definition sha_pad :: "bytes \<Rightarrow> bytes" where
  "sha_pad m = m @ [0x80] @ replicate ((119 - length m mod 64) mod 64) 0 @ big_endian 8 (8 * length m)"

definition sha256 :: "bytes \<Rightarrow> bytes" where
  "sha256 m =
     concat (map (\<lambda>w. big_endian 4 (unat w))
       (foldl sha_block sha_initial (map (\<lambda>b. map word_of_bytes (chunks 4 b)) (chunks 64 (sha_pad m)))))"

section \<open>HMAC\<close>

definition hmac_sha256 :: "bytes \<Rightarrow> bytes \<Rightarrow> bytes" where
  "hmac_sha256 key m =
     (let k0 = (if 64 < length key then sha256 key else key);
          k = k0 @ replicate (64 - length k0) 0
      in sha256 (map (\<lambda>b. b XOR 0x5C) k @ sha256 (map (\<lambda>b. b XOR 0x36) k @ m)))"

definition lower_hex_digit :: "nat \<Rightarrow> nat" where
  "lower_hex_digit n = (if n < 10 then 48 + n else 87 + n)"

definition hexdigest :: "bytes \<Rightarrow> pystr" where
  "hexdigest bs = concat (map (\<lambda>b. [lower_hex_digit (unat b div 16), lower_hex_digit (unat b mod 16)]) bs)"

section \<open>Sizes\<close>

lemma length_big_endian [simp]: "length (big_endian k n) = k"
  by (simp add: big_endian_def)

lemma length_sha_round: "length s = 8 \<Longrightarrow> length (sha_round s p) = 8"
  by (cases "(s, p)" rule: sha_round.cases) (auto simp: Let_def)

lemma length_schedule: "length (schedule n ws) = n + length ws"
  by (induction n ws rule: schedule.induct) simp_all

lemma length_fold_rounds: "length s = 8 \<Longrightarrow> length (foldl sha_round s ps) = 8"
  by (induction ps arbitrary: s) (simp_all add: length_sha_round)

lemma length_sha_block: "length s = 8 \<Longrightarrow> length (sha_block s ws) = 8"
  by (simp add: sha_block_def length_fold_rounds)

lemma length_fold_blocks: "length s = 8 \<Longrightarrow> length (foldl sha_block s bs) = 8"
  by (induction bs arbitrary: s) (simp_all add: length_sha_block)

lemma length_concat_const: "(\<And>x. x \<in> set xs \<Longrightarrow> length (f x) = n) \<Longrightarrow> length (concat (map f xs)) = n * length xs"
  by (induction xs) simp_all

lemma length_sha256 [simp]: "length (sha256 m) = 32"
proof -
  have "length sha_initial = 8" by (simp add: sha_initial_def)
  from length_fold_blocks [OF this] show ?thesis
    by (simp add: sha256_def length_concat_const [where n = 4])
qed

lemma length_hexdigest: "length (hexdigest bs) = 2 * length bs"
  by (simp add: hexdigest_def length_concat_const [where n = 2])

text \<open>The padded message is a whole number of blocks.\<close>

lemma pad_arith:
  assumes "(r :: nat) < 64"
  shows "64 dvd 64 * q + r + (1 + ((119 - r) mod 64 + 8))"
proof (cases "r \<le> 55")
  case True
  then have "119 - r = (55 - r) + 64" by simp
  then have "(119 - r) mod 64 = 55 - r" using True by (simp only: mod_add_self2) simp
  with True have "64 * q + r + (1 + ((119 - r) mod 64 + 8)) = 64 * (q + 1)" by simp
  then show ?thesis by (rule dvdI)
next
  case False
  with assms have "(119 - r) mod 64 = 119 - r" by simp
  with False assms have "64 * q + r + (1 + ((119 - r) mod 64 + 8)) = 64 * (q + 2)" by simp
  then show ?thesis by (rule dvdI)
qed

lemma sha_pad_blocks: "64 dvd length (sha_pad m)"
proof -
  obtain q r where n: "length m = 64 * q + r" "r < 64"
    by (metis mod_less_divisor mult_div_mod_eq zero_less_numeral)
  then have "length m mod 64 = r" by simp
  then have "length (sha_pad m) = 64 * q + r + (1 + ((119 - r) mod 64 + 8))"
    by (simp add: sha_pad_def n(1) del: One_nat_def)
  then show ?thesis using pad_arith [OF n(2), of q] by simp
qed

lemma hexdigest_range: "list_all (\<lambda>c. (48 \<le> c \<and> c \<le> 57) \<or> (97 \<le> c \<and> c \<le> 102)) (hexdigest bs)"
proof -
  have d: "48 \<le> lower_hex_digit n \<and> lower_hex_digit n \<le> 57 \<or> 97 \<le> lower_hex_digit n \<and> lower_hex_digit n \<le> 102"
    if "n < 16" for n
    using that by (simp add: lower_hex_digit_def)
  have "unat b div 16 < 16" "unat b mod 16 < 16" for b :: byte
    using unat_byte_lt [of b] by (simp_all add: less_mult_imp_div_less)
  from d [OF this(1)] d [OF this(2)] show ?thesis
    by (auto simp: hexdigest_def list_all_iff simp del: One_nat_def)
qed

end
