(* ===== verification/Signature.thy ===== *)
theory Signature
  imports Envelope Sha256
begin

text \<open>
  The signature of a webhook request: \<open>signBody\<close> of the Worker (\<open>lib/sign.ts\<close>) and
  \<open>_cloudflare_verify_signature\<close> of \<open>fetchmail_server.py\<close>, over the same HMAC-SHA256. What
  the check relies on of a digest function is the locale \<open>hex_mac\<close>; HMAC-SHA256 is its
  interpretation.
\<close>

section \<open>The code\<close>

definition SIGNATURE_SCHEME :: pystr where "SIGNATURE_SCHEME = lit ''v1''"

definition SIGNATURE_TOLERANCE :: int where "SIGNATURE_TOLERANCE = 300"

text \<open>\<open>hmac.new(secret, f"{timestamp}.".encode() + body, sha256).hexdigest()\<close>\<close>

definition hmac_hex :: "bytes \<Rightarrow> bytes \<Rightarrow> pystr" where
  "hmac_hex key m = hexdigest (hmac_sha256 key m)"

text \<open>\<open>hmac.compare_digest\<close> of two strings raises on a character beyond ASCII, which the code
  turns into \<open>False\<close>.\<close>

definition digests_match :: "interp \<Rightarrow> pystr \<Rightarrow> pystr \<Rightarrow> bool" where
  "digests_match U expected digest = (ascii (lower U digest) \<and> expected = lower U digest)"

text \<open>
  \<open>None\<close> stands for a missing header and for a secret that is not set; the first tests take
  an empty string for missing as well.
\<close>

definition missing :: "pystr option \<Rightarrow> bool" where
  "missing v = (case v of None \<Rightarrow> True | Some s \<Rightarrow> s = [])"

definition signature_digest :: "pystr \<Rightarrow> pystr option" where
  "signature_digest signature =
     (let (scheme, digest) = partition1 61 (strip signature) in
      if scheme = SIGNATURE_SCHEME \<and> digest \<noteq> [] then Some digest else None)"

definition verify_signature ::
  "interp \<Rightarrow> pystr option \<Rightarrow> pystr option \<Rightarrow> pystr option \<Rightarrow> body_arg \<Rightarrow> int \<Rightarrow> bool py"
where
  "verify_signature U secret timestamp signature b now =
     (if missing secret \<or> missing timestamp \<or> missing signature then Inr False
      else
        bindR (body_bytes b) (\<lambda>body.
          let ts = strip (the timestamp) in
          case py_int U ts of
            None \<Rightarrow> Inr False
          | Some issued_at \<Rightarrow>
              if SIGNATURE_TOLERANCE < \<bar>now - issued_at\<bar> then Inr False
              else
                (case signature_digest (the signature) of
                   None \<Rightarrow> Inr False
                 | Some digest \<Rightarrow>
                     bindR (encode_py (the secret)) (\<lambda>key.
                     bindR (encode_py (ts @ lit ''.'')) (\<lambda>stamp.
                       Inr (digests_match U (hmac_hex key (stamp @ body)) digest))))))"

text \<open>
  The Worker: \<open>unixSeconds\<close>, \<open>signaturePayload\<close> and \<open>signBody\<close>; \<open>TextEncoder\<close> writes UTF-8.
\<close>

definition unix_seconds :: "nat \<Rightarrow> nat" where
  "unix_seconds now_ms = now_ms div 1000"

definition signature_payload :: "nat \<Rightarrow> bytes \<Rightarrow> bytes" where
  "signature_payload timestamp body = map oct (dec_nat timestamp @ lit ''.'') @ body"

definition sign_body :: "bytes \<Rightarrow> nat \<Rightarrow> bytes \<Rightarrow> pystr" where
  "sign_body key timestamp body = lit ''v1='' @ hmac_hex key (signature_payload timestamp body)"

section \<open>What the check relies on of a digest\<close>

text \<open>
  A digest function whose text is lower-case hexadecimal: white space, case and the
  separator cannot interfere with its comparison.
\<close>

locale hex_mac =
  fixes mac :: "bytes \<Rightarrow> bytes \<Rightarrow> pystr"
  assumes hex: "list_all (\<lambda>c. (48 \<le> c \<and> c \<le> 57) \<or> (97 \<le> c \<and> c \<le> 102)) (mac key m)"
    and some: "mac key m \<noteq> []"
begin

lemma mac_ascii: "ascii (mac key m)"
  using hex [of key m] by (auto simp: ascii_def list_all_iff)

lemma mac_lower: "lower U (mac key m) = mac key m"
proof -
  have "map ascii_lower (mac key m) = mac key m"
    using hex [of key m] by (intro map_idI) (auto simp: list_all_iff ascii_lower_def)
  then show ?thesis by (simp add: lower_ascii mac_ascii)
qed

lemma mac_matches: "digests_match U (mac key m) (mac key m)"
  by (simp add: digests_match_def mac_lower mac_ascii)

lemma digest_of_signature: "signature_digest (lit ''v1='' @ mac key m) = Some (mac key m)"
proof -
  have l: "last (mac key m) \<in> set (mac key m)" using some by simp
  then have "(48 \<le> last (mac key m) \<and> last (mac key m) \<le> 57) \<or> (97 \<le> last (mac key m) \<and> last (mac key m) \<le> 102)"
    using hex [of key m] unfolding list_all_iff by blast
  then have "\<not> py_space (last (lit ''v1='' @ mac key m))"
    using some [of key m] by (auto simp: py_space_def)
  then have "strip (lit ''v1='' @ mac key m) = lit ''v1='' @ mac key m"
    unfolding strip_def by (intro strip_by_id) (simp add: py_space_def)
  moreover have "partition1 61 (lit ''v1='' @ mac key m) = (lit ''v1'', mac key m)"
    using partition1_append [of 61 "lit ''v1''" "mac key m"] by simp
  ultimately show ?thesis
    using some by (simp add: signature_digest_def SIGNATURE_SCHEME_def)
qed

end

interpretation hmac: hex_mac hmac_hex
proof
  fix key m
  show "list_all (\<lambda>c. (48 \<le> c \<and> c \<le> 57) \<or> (97 \<le> c \<and> c \<le> 102)) (hmac_hex key m)"
    by (simp add: hmac_hex_def hexdigest_range)
  have "length (hmac_hex key m) = 64"
    by (simp add: hmac_hex_def length_hexdigest hmac_sha256_def Let_def)
  then show "hmac_hex key m \<noteq> []" by auto
qed

section \<open>The outcome of the check\<close>

lemma verify_signature_True:
  "verify_signature U secret timestamp signature b now = Inr True \<longleftrightarrow>
     (\<exists>sec ts sg body issued digest key stamp.
        secret = Some sec \<and> sec \<noteq> [] \<and> timestamp = Some ts \<and> ts \<noteq> [] \<and> signature = Some sg \<and> sg \<noteq> []
        \<and> body_bytes b = Inr body \<and> py_int U (strip ts) = Some issued \<and> \<bar>now - issued\<bar> \<le> 300
        \<and> signature_digest sg = Some digest \<and> encode sec = Some key
        \<and> encode (strip ts @ lit ''.'') = Some stamp
        \<and> lower U digest = hmac_hex key (stamp @ body))"
proof (cases "missing secret \<or> missing timestamp \<or> missing signature")
  case True
  then show ?thesis by (auto simp: verify_signature_def missing_def split: option.splits)
next
  case False
  then obtain sec ts sg where o: "secret = Some sec" "sec \<noteq> []" "timestamp = Some ts" "ts \<noteq> []"
    "signature = Some sg" "sg \<noteq> []"
    by (auto simp: missing_def split: option.splits)
  have m: "digests_match U (hmac_hex k x) d \<longleftrightarrow> lower U d = hmac_hex k x" for k x d
    using hmac.mac_ascii by (auto simp: digests_match_def)
  show ?thesis
  proof (cases "\<exists>body issued digest. body_bytes b = Inr body \<and> py_int U (strip ts) = Some issued
      \<and> signature_digest sg = Some digest")
    case True
    then obtain body issued digest where "body_bytes b = Inr body" "py_int U (strip ts) = Some issued"
      "signature_digest sg = Some digest" by blast
    with o show ?thesis
      by (auto simp: verify_signature_def missing_def Let_def bindR_Inr_iff encode_py_Inr_iff m
          SIGNATURE_TOLERANCE_def simp del: lit_simps)
  next
    case False
    with o show ?thesis
      by (auto simp: verify_signature_def missing_def Let_def bindR_Inr_iff simp del: lit_simps
          split: option.splits if_splits)
  qed
qed

lemma dec_nat_encode: "encode (dec_nat n @ lit ''.'') = Some (map oct (dec_nat n @ lit ''.''))"
  using encode_ascii [of "dec_nat n @ lit ''.''"] by (simp add: ascii_dec_nat)

lemma strip_dec_nat: "strip (dec_nat n) = dec_nat n"
proof -
  have "hd (dec_nat n) \<in> set (dec_nat n)" "last (dec_nat n) \<in> set (dec_nat n)" by simp_all
  note d = this [THEN dec_nat_digits]
  have "\<not> py_space (hd (dec_nat n))" "\<not> py_space (last (dec_nat n))"
    using d unfolding py_space_def by linarith+
  then show ?thesis unfolding strip_def by (intro strip_by_id) simp
qed

lemma verify_worker_signature:
  assumes "sec \<noteq> []" and "encode sec = Some key" and "length (dec_nat t) \<le> 4300" and "\<bar>now - int t\<bar> \<le> 300"
  shows "verify_signature U (Some sec) (Some (dec_nat t)) (Some (sign_body key t body)) (BodyBytes body) now = Inr True"
proof -
  have i: "py_int U (strip (dec_nat t)) = Some (int t)"
    using assms(3) by (simp add: strip_dec_nat py_int_dec_nat)
  have d: "signature_digest (sign_body key t body) = Some (hmac_hex key (signature_payload t body))"
    unfolding sign_body_def by (rule hmac.digest_of_signature)
  have ne: "sign_body key t body \<noteq> []" by (simp add: sign_body_def)
  show ?thesis
    unfolding verify_signature_True
    by (intro exI [of _ sec] exI [of _ "dec_nat t"] exI [of _ "sign_body key t body"] exI [of _ body]
        exI [of _ "int t"] exI [of _ "hmac_hex key (signature_payload t body)"] exI [of _ key]
        exI [of _ "map oct (dec_nat t @ lit ''.'')"] conjI refl assms(1,2,4) i d ne)
      (simp_all add: strip_dec_nat dec_nat_encode hmac.mac_lower signature_payload_def body_bytes_def
        del: lit_simps)
qed

section \<open>Properties\<close>


text \<open>
  The two ends agree: a request the Worker signs at a time t is accepted by the module with
  the same secret while its clock is within 300 seconds of t.
\<close>

theorem worker_signature_accepted:
  assumes "sec \<noteq> []" and "encode sec = Some key" and "length (dec_nat t) \<le> 4300" and "\<bar>now - int t\<bar> \<le> 300"
  shows "verify_signature U (Some sec) (Some (dec_nat t)) (Some (sign_body key t body)) (BodyBytes body) now = Inr True"
  using assms by (rule verify_worker_signature)

theorem worker_signature_accepted_witness:
  "verify_signature plain_interp (Some (lit ''s'')) (Some (dec_nat 1700000000))
     (Some (sign_body [0x73] 1700000000 [0x61])) (BodyBytes [0x61]) 1700000300 = Inr True"
proof -
  have "length (dec_nat 1700000000) \<le> 4300" by (simp add: dec_nat_numeral)
  moreover have "encode (lit ''s'') = Some [0x73]" by (simp add: utf8_char_def oct_def)
  ultimately show ?thesis by (intro worker_signature_accepted) simp_all
qed

end
