(* ===== verification/Url.thy ===== *)
theory Url
  imports PyJson
begin

text \<open>
  \<open>urllib.parse.urlsplit\<close> as far as \<open>_cloudflare_check_base_url\<close> reads its result: the scheme
  and the host name. The library's own checks of the network location (Unicode
  normalisation, IP addresses in brackets) raise \<open>ValueError\<close>; which locations pass them is
  the parameter \<open>netloc_ok\<close>.
\<close>

definition is_alpha :: "nat \<Rightarrow> bool" where
  "is_alpha c \<longleftrightarrow> (65 \<le> c \<and> c \<le> 90) \<or> (97 \<le> c \<and> c \<le> 122)"

definition scheme_char :: "nat \<Rightarrow> bool" where
  "scheme_char c \<longleftrightarrow> is_alpha c \<or> (48 \<le> c \<and> c \<le> 57) \<or> c = 43 \<or> c = 45 \<or> c = 46"

text \<open>Leading control characters and spaces go, tabs and line ends go everywhere.\<close>

definition clean_url :: "pystr \<Rightarrow> pystr" where
  "clean_url url = filter (\<lambda>c. c \<notin> {9, 10, 13}) (dropWhile (\<lambda>c. c \<le> 32) url)"

definition split_scheme :: "pystr \<Rightarrow> pystr \<times> pystr" where
  "split_scheme url =
     (let (h, t) = partition1 58 url in
      if 58 \<in> set url \<and> h \<noteq> [] \<and> is_alpha (hd h) \<and> list_all scheme_char h
      then (map ascii_lower h, t) else ([], url))"

definition netloc_of :: "pystr \<Rightarrow> pystr" where
  "netloc_of rest =
     (if take 2 rest = [47, 47] then takeWhile (\<lambda>c. c \<notin> {47, 63, 35}) (drop 2 rest) else [])"

definition urlsplit :: "(pystr \<Rightarrow> bool) \<Rightarrow> pystr \<Rightarrow> (pystr \<times> pystr) py" where
  "urlsplit netloc_ok url =
     (let (scheme, rest) = split_scheme (clean_url url); netloc = netloc_of rest in
      if (91 \<in> set netloc) \<noteq> (93 \<in> set netloc) then Inl (ValueError (lit ''Invalid IPv6 URL''))
      else if \<not> netloc_ok netloc then Inl (ValueError (lit ''netloc''))
      else Inr (scheme, netloc))"

text \<open>\<open>parts.hostname\<close>: without the user, the brackets and the port; a zone keeps its case.\<close>

definition hostname :: "interp \<Rightarrow> pystr \<Rightarrow> pystr option" where
  "hostname U netloc =
     (let hostinfo = rev (takeWhile (\<lambda>c. c \<noteq> 64) (rev netloc));
          host = (if 91 \<in> set hostinfo then fst (partition1 93 (snd (partition1 91 hostinfo)))
                  else fst (partition1 58 hostinfo));
          (name, zone) = partition1 37 host
      in if host = [] then None
         else Some (lower U name @ (if 37 \<in> set host then 37 # zone else [])))"

end
