(* ===== verification/Fetchmail.thy ===== *)
theory Fetchmail
  imports Signature Url Orm Base64
begin

text \<open>
  \<open>fetchmail.server\<close> with the "Cloudflare Email Worker" type (\<open>models/fetchmail_server.py\<close>):
  the credentials a server gets when it becomes one, their regeneration, the confirmation, the
  look-up of a server by its webhook key, what is kept away from the polling machinery, and
  the processing of one inbound message.
\<close>

section \<open>Constants and environment\<close>

definition INBOUND_PATH :: pystr where "INBOUND_PATH = lit ''/mail_cloudflare/inbound''"

definition LOOPBACK_HOSTS :: "pystr list" where
  "LOOPBACK_HOSTS = [lit ''localhost'', lit ''127.0.0.1'', lit ''::1'']"

definition CLOUDFLARE :: json where "CLOUDFLARE = JStr (lit ''cloudflare'')"

definition F_TYPE :: pystr where "F_TYPE = lit ''server_type''"

definition F_KEY :: pystr where "F_KEY = lit ''cloudflare_webhook_key''"

definition F_SECRET :: pystr where "F_SECRET = lit ''cloudflare_webhook_secret''"

definition F_STATE :: pystr where "F_STATE = lit ''state''"

definition F_CONF :: pystr where "F_CONF = lit ''configuration''"

definition F_URL :: pystr where "F_URL = lit ''cloudflare_webhook_url''"

definition F_ACTIVE :: pystr where "F_ACTIVE = lit ''active''"

text \<open>
  What the model takes from outside: the record store, the n-th result of
  \<open>secrets.token_bytes(32)\<close>, the \<open>web.base.url\<close> parameter, the library's check of a network
  location, the translation of a message with its arguments, the text of a
  \<open>UnicodeEncodeError\<close>, and what core does when it
  confirms, connects or processes.
\<close>

record 'db fm_env =
  fm_orm :: "'db orm"
  fm_random :: "nat \<Rightarrow> bytes"
  fm_base_url :: "'db \<Rightarrow> json"
  fm_interp :: interp
  fm_netloc_ok :: "pystr \<Rightarrow> bool"
  fm_tr :: "pystr \<Rightarrow> pystr list \<Rightarrow> pystr"
  fm_codec_text :: pystr
  fm_core_confirm :: "'db \<Rightarrow> nat list \<Rightarrow> 'db py"
  fm_core_connect :: "'db \<Rightarrow> nat \<Rightarrow> bool \<Rightarrow> json py"

definition fm_get :: "'db fm_env \<Rightarrow> 'db \<Rightarrow> nat \<Rightarrow> pystr \<Rightarrow> json" where
  "fm_get E db i f = o_get (fm_orm E) db i f"

definition is_cloudflare :: "'db fm_env \<Rightarrow> 'db \<Rightarrow> nat \<Rightarrow> bool" where
  "is_cloudflare E db i \<longleftrightarrow> fm_get E db i F_TYPE = CLOUDFLARE"

section \<open>Field declarations\<close>

text \<open>
  What a declaration says of a field: its label and help, whether a duplicate gets the value,
  whether it is indexed, whether forms can write it, the group that may see it, and its compute
  method. A computed field is read-only and not copied.
\<close>

record field_decl =
  fd_name :: pystr
  fd_label :: pystr
  fd_copy :: bool
  fd_index :: bool
  fd_readonly :: bool
  fd_groups :: "pystr option"
  fd_compute :: "pystr option"
  fd_help :: pystr

definition cloudflare_webhook_key :: field_decl where
  "cloudflare_webhook_key =
     \<lparr>fd_name = F_KEY, fd_label = lit ''Webhook Key'', fd_copy = False, fd_index = True, fd_readonly = True,
      fd_groups = None, fd_compute = None,
      fd_help = lit ''Secret last segment of the webhook URL. Generated when the ''
        @ lit ''server becomes a Cloudflare Email Worker; a duplicated server gets '' @ lit ''its own.''\<rparr>"

definition cloudflare_webhook_secret :: field_decl where
  "cloudflare_webhook_secret =
     \<lparr>fd_name = F_SECRET, fd_label = lit ''Webhook Secret'', fd_copy = False, fd_index = False, fd_readonly = True,
      fd_groups = Some (lit ''base.group_system''), fd_compute = None,
      fd_help = lit ''Key the Email Worker signs every request with (its ''
        @ lit ''ODOO_WEBHOOK_SECRET). Regenerate it to revoke a leaked secret, then '' @ lit ''update the Worker.''\<rparr>"

definition cloudflare_webhook_url :: field_decl where
  "cloudflare_webhook_url =
     \<lparr>fd_name = F_URL, fd_label = lit ''Webhook URL'', fd_copy = False, fd_index = False, fd_readonly = True,
      fd_groups = None, fd_compute = Some (lit ''_compute_cloudflare_webhook_url''),
      fd_help = lit ''Where the Email Worker posts inbound messages (its ''
        @ lit ''ODOO_INBOUND_URL). Built from the web.base.url system parameter.''\<rparr>"

definition WEBHOOK_FIELDS :: "field_decl list" where
  "WEBHOOK_FIELDS = [cloudflare_webhook_key, cloudflare_webhook_secret, cloudflare_webhook_url]"

section \<open>Webhook URL, server type information, onchange\<close>

definition webhook_url :: "'db fm_env \<Rightarrow> 'db \<Rightarrow> nat \<Rightarrow> json" where
  "webhook_url E db i =
     (let base = rstrip_by (\<lambda>c. c = 47) (text_of (py_or (fm_base_url E db) (JStr []))) in
      if is_cloudflare E db i \<and> truthy (fm_get E db i F_KEY)
      then JStr (base @ INBOUND_PATH @ lit ''/'' @ text_of (fm_get E db i F_KEY))
      else JBool False)"

definition CONFIGURATION :: pystr where
  "CONFIGURATION = join [10]
     [lit ''Deploy the Cloudflare Email Worker (@avunu/mail-cloudflare-worker) and route'',
      lit ''the alias domain's addresses to it: Cloudflare > Email Routing > Send to a Worker.'',
      lit '''',
      lit ''Worker environment:'',
      lit ''  ODOO_INBOUND_URL     the Webhook URL below (wrangler.jsonc \"vars\")'',
      lit ''  ODOO_WEBHOOK_SECRET  the Webhook Secret below (wrangler secret put)'',
      lit '''',
      lit ''Every inbound message is POSTed to the Webhook URL as Content-Type'',
      lit ''message/rfc822 (the raw RFC 5322 message) with these headers:'',
      lit ''  X-Mail-Cloudflare-Id             Worker queue id of the message'',
      lit ''  X-Mail-Cloudflare-Timestamp      Unix seconds; rejected outside +/- '' @ dec_int SIGNATURE_TOLERANCE @ lit '' s'',
      lit ''  X-Mail-Cloudflare-Signature      '' @ SIGNATURE_SCHEME @ lit ''=<hex HMAC-SHA256(secret, \"<timestamp>.\" + body)>'',
      lit ''  X-Mail-Cloudflare-Envelope-From  SMTP MAIL FROM (empty for bounces)'',
      lit ''  X-Mail-Cloudflare-Envelope-To    SMTP RCPT TO, the routed address'',
      lit ''  X-Mail-Cloudflare-Attempt        delivery attempt, starting at 1'',
      lit '''',
      lit ''Responses (JSON):'',
      lit ''  200  delivered; {\"ok\": true, \"thread_id\": <record id or false>}'',
      lit ''  401  bad or missing signature, stale timestamp     -> Worker marks it rejected'',
      lit ''  404  unknown key, server not confirmed or archived -> rejected'',
      lit ''  422  no route: no alias matched, no fallback model -> rejected'',
      lit ''  500  anything else                                 -> retried with back-off'',
      lit '''']"

text \<open>
  \<open>onchange_server_type\<close>: the fields the form blanks and the contract it shows; \<open>None\<close> is
  core's own method.
\<close>

definition onchange_server_type :: "json \<Rightarrow> vals option" where
  "onchange_server_type server_type =
     (if server_type \<noteq> CLOUDFLARE then None
      else Some [(lit ''server'', JBool False), (lit ''port'', JInt 0), (lit ''is_ssl'', JBool False),
                 (lit ''user'', JBool False), (lit ''password'', JBool False), (F_CONF, JStr CONFIGURATION)])"

definition TYPE_INFO :: pystr where
  "TYPE_INFO = lit ''Messages are pushed by a Cloudflare Email Worker over HTTPS, ''
     @ lit ''nothing is polled. Deploy the Worker with the webhook URL and ''
     @ lit ''secret below, then route the alias domain's addresses to it ''
     @ lit ''(Cloudflare > Email Routing > Send to a Worker).''"

text \<open>The information text of each server; the others are left to core (\<open>rest\<close>).\<close>

definition server_type_info ::
  "'db fm_env \<Rightarrow> ('db \<Rightarrow> nat list \<Rightarrow> nat \<Rightarrow> pystr) \<Rightarrow> 'db \<Rightarrow> nat list \<Rightarrow> nat \<Rightarrow> pystr"
where
  "server_type_info E rest db ids i =
     (if is_cloudflare E db i then fm_tr E TYPE_INFO []
      else rest db (filter (\<lambda>j. \<not> is_cloudflare E db j) ids) i)"

section \<open>create and write\<close>

definition token :: "'db fm_env \<Rightarrow> nat \<Rightarrow> json" where
  "token E n = JStr (token_of_bytes (fm_random E n))"

text \<open>
  One \<open>vals\<close> of \<open>create\<close>. Both tokens are drawn, needed or not: the arguments of
  \<open>setdefault\<close> are evaluated first. The number counts the draws.
\<close>

definition create_vals :: "'db fm_env \<Rightarrow> nat \<Rightarrow> vals \<Rightarrow> nat \<times> vals" where
  "create_vals E n vals =
     (if map_of vals F_TYPE = Some CLOUDFLARE then
        (n + 2, setdefault F_CONF (JStr CONFIGURATION)
                  (setdefault F_SECRET (token E (n + 1)) (setdefault F_KEY (token E n) vals)))
      else (n, vals))"

fun create_list :: "'db fm_env \<Rightarrow> nat \<Rightarrow> vals list \<Rightarrow> nat \<times> vals list" where
  "create_list E n [] = (n, [])"
| "create_list E n (v # vs) =
     (let (n1, v1) = create_vals E n v; (n2, vs2) = create_list E n1 vs in (n2, v1 # vs2))"

definition fm_create :: "'db fm_env \<Rightarrow> nat \<times> 'db \<Rightarrow> vals list \<Rightarrow> ((nat \<times> 'db) \<times> nat list) py" where
  "fm_create E st vals_list =
     (let (n, vs) = create_list E (fst st) vals_list in
      bindR (o_create (fm_orm E) (snd st) vs) (\<lambda>(db, ids). Inr ((n, db), ids)))"

text \<open>
  \<open>copy\<close> of a server is Odoo's: a record is created from the values of the fields that are
  copied. \<open>copyable\<close> names those of core and of other modules; this module's declarations take
  its own fields out.
\<close>

definition copied :: "pystr \<Rightarrow> bool" where
  "copied f \<longleftrightarrow> \<not> list_ex (\<lambda>d. fd_name d = f \<and> \<not> fd_copy d) WEBHOOK_FIELDS"

definition copy_vals :: "'db fm_env \<Rightarrow> 'db \<Rightarrow> pystr list \<Rightarrow> nat \<Rightarrow> vals" where
  "copy_vals E db copyable i = map (\<lambda>f. (f, fm_get E db i f)) (filter copied copyable)"

definition fm_copy :: "'db fm_env \<Rightarrow> nat \<times> 'db \<Rightarrow> pystr list \<Rightarrow> nat \<Rightarrow> ((nat \<times> 'db) \<times> nat list) py" where
  "fm_copy E st copyable i = fm_create E st [copy_vals E (snd st) copyable i]"

definition server_values :: "'db fm_env \<Rightarrow> nat \<times> 'db \<Rightarrow> nat \<Rightarrow> vals \<Rightarrow> nat \<times> vals" where
  "server_values E st i values =
     (let (n, db) = st;
          v = setdefault F_CONF (JStr CONFIGURATION) values;
          (n1, v1) = (if \<not> truthy (fm_get E db i F_KEY) then (n + 1, setdefault F_KEY (token E n) v) else (n, v))
      in if \<not> truthy (fm_get E db i F_SECRET) then (n1 + 1, setdefault F_SECRET (token E n1) v1) else (n1, v1))"

fun write_servers :: "'db fm_env \<Rightarrow> nat \<times> 'db \<Rightarrow> vals \<Rightarrow> nat list \<Rightarrow> (nat \<times> 'db) py" where
  "write_servers E st values [] = Inr st"
| "write_servers E st values (i # is) =
     (let (n, v) = server_values E st i values in
      bindR (o_write (fm_orm E) (snd st) [i] v) (\<lambda>db. write_servers E (n, db) values is))"

definition fm_write :: "'db fm_env \<Rightarrow> nat \<times> 'db \<Rightarrow> nat list \<Rightarrow> vals \<Rightarrow> (nat \<times> 'db) py" where
  "fm_write E st ids values =
     (if map_of values F_TYPE \<noteq> Some CLOUDFLARE
      then bindR (o_write (fm_orm E) (snd st) ids values) (\<lambda>db. Inr (fst st, db))
      else write_servers E st values ids)"

text \<open>
  \<open>action_regenerate_cloudflare_webhook_secret\<close>: the writes, and the notification it returns.
\<close>

fun regenerate_secret :: "'db fm_env \<Rightarrow> nat \<times> 'db \<Rightarrow> nat list \<Rightarrow> (nat \<times> 'db) py" where
  "regenerate_secret E st [] = Inr st"
| "regenerate_secret E st (i # is) =
     bindR (fm_write E (fst st + 1, snd st) [i] [(F_SECRET, token E (fst st))]) (\<lambda>st1. regenerate_secret E st1 is)"

definition regenerate_notification :: "'db fm_env \<Rightarrow> json" where
  "regenerate_notification E =
     JObj [(lit ''type'', JStr (lit ''ir.actions.client'')),
           (lit ''tag'', JStr (lit ''display_notification'')),
           (lit ''params'', JObj
              [(lit ''type'', JStr (lit ''warning'')),
               (lit ''title'', JStr (fm_tr E (lit ''Webhook secret regenerated'') [])),
               (lit ''message'', JStr (fm_tr E (lit ''Update ODOO_WEBHOOK_SECRET in the Email Worker: requests ''
                  @ lit ''signed with the previous secret are rejected from now on.'') [])),
               (lit ''sticky'', JBool True)])]"

section \<open>Kept away from polling\<close>

definition archived_message :: pystr where
  "archived_message = lit ''The server \"%s\" cannot be used because it is archived.''"

definition fm_connect :: "'db fm_env \<Rightarrow> 'db \<Rightarrow> nat \<Rightarrow> bool \<Rightarrow> json py" where
  "fm_connect E db i allow_archived =
     (if \<not> is_cloudflare E db i then fm_core_connect E db i allow_archived
      else if \<not> allow_archived \<and> \<not> truthy (fm_get E db i F_ACTIVE)
      then Inl (UserError (fm_tr E archived_message [text_of (fm_get E db i (lit ''display_name''))]))
      else Inr JNull)"

definition base_url_message :: pystr where
  "base_url_message = lit ''The webhook URL is built from the system parameter web.base.url ''
     @ lit ''(%s), which must be an https address: it carries the webhook ''
     @ lit ''key and the Worker delivers your mail to it. Set it to the ''
     @ lit ''public https URL (and freeze it with web.base.url.freeze).''"

definition base_url_ok :: "'db fm_env \<Rightarrow> pystr \<Rightarrow> bool py" where
  "base_url_ok E url =
     bindR (urlsplit (fm_netloc_ok E) url) (\<lambda>(scheme, netloc).
       Inr (scheme = lit ''https''
            \<or> scheme = lit ''http'' \<and> hostname (fm_interp E) netloc \<in> Some ` set LOOPBACK_HOSTS))"

definition check_base_url :: "'db fm_env \<Rightarrow> 'db \<Rightarrow> unit py" where
  "check_base_url E db =
     (let url = text_of (py_or (fm_base_url E db) (JStr [])) in
      bindR (base_url_ok E url) (\<lambda>ok.
        if ok then Inr () else Inl (UserError (fm_tr E base_url_message [url]))))"

definition no_credentials_message :: pystr where
  "no_credentials_message = lit ''The server \"%s\" has no webhook key or secret. ''
     @ lit ''Regenerate the secret and try again.''"

fun confirm_servers :: "'db fm_env \<Rightarrow> nat \<times> 'db \<Rightarrow> nat list \<Rightarrow> (nat \<times> 'db) py" where
  "confirm_servers E st [] = Inr st"
| "confirm_servers E st (i # is) =
     (if \<not> (truthy (fm_get E (snd st) i F_KEY) \<and> truthy (fm_get E (snd st) i F_SECRET))
      then Inl (UserError (fm_tr E no_credentials_message [text_of (fm_get E (snd st) i (lit ''display_name''))]))
      else
        bindR (check_base_url E (snd st)) (\<lambda>_.
        bindR (fm_write E st [i] [(F_STATE, JStr (lit ''done''))]) (\<lambda>st1. confirm_servers E st1 is)))"

definition button_confirm_login :: "'db fm_env \<Rightarrow> nat \<times> 'db \<Rightarrow> nat list \<Rightarrow> (nat \<times> 'db) py" where
  "button_confirm_login E st ids =
     bindR (confirm_servers E st (filter (is_cloudflare E (snd st)) ids)) (\<lambda>st1.
     bindR (fm_core_confirm E (snd st1) (filter (\<lambda>i. \<not> is_cloudflare E (snd st) i) ids)) (\<lambda>db.
       Inr (fst st1, db)))"

text \<open>The servers \<open>fetch_mail\<close> hands on to core.\<close>

definition fetch_mail :: "'db fm_env \<Rightarrow> 'db \<Rightarrow> nat list \<Rightarrow> nat list" where
  "fetch_mail E db ids = filter (\<lambda>i. \<not> is_cloudflare E db i) ids"

text \<open>
  \<open>_update_cron\<close>: the domain the polling cron is toggled with, if it is; the reference to
  the cron may be missing (\<open>ValueError\<close>, ignored).
\<close>

definition update_cron :: "bool \<Rightarrow> bool \<Rightarrow> condition list option" where
  "update_cron fetchmail_cron_running cron_exists =
     (if fetchmail_cron_running then None
      else if cron_exists
      then Some [Equals F_STATE (JStr (lit ''done'')), NotIn F_TYPE [JStr (lit ''local''), CLOUDFLARE]]
      else None)"

section \<open>Inbound\<close>

definition key_domain :: "pystr \<Rightarrow> condition list" where
  "key_domain key = [Equals F_KEY (JStr key), Equals F_TYPE CLOUDFLARE, Equals F_STATE (JStr (lit ''done''))]"

definition find_by_key :: "'db fm_env \<Rightarrow> 'db \<Rightarrow> pystr \<Rightarrow> nat list" where
  "find_by_key E db key = (if key = [] then [] else o_search (fm_orm E) db (key_domain key) 1)"

text \<open>A \<open>Char\<close> field as the secret \<open>verify_signature\<close> reads.\<close>

definition secret_of :: "'db fm_env \<Rightarrow> 'db \<Rightarrow> nat \<Rightarrow> pystr option" where
  "secret_of E db i = (case fm_get E db i F_SECRET of JStr s \<Rightarrow> Some s | _ \<Rightarrow> None)"

text \<open>
  Core's \<open>message_process\<close> with its arguments as the code passes them (server id for the
  context, model, message, \<open>save_original\<close>, \<open>strip_attachments\<close>): it may change the database
  and raise.
\<close>

type_synonym 'db processor = "'db \<Rightarrow> nat \<Rightarrow> json \<Rightarrow> bytes \<Rightarrow> bool \<Rightarrow> bool \<Rightarrow> 'db \<times> json py"

definition process_inbound ::
  "'db fm_env \<Rightarrow> 'db processor \<Rightarrow> json \<Rightarrow> 'db \<Rightarrow> nat \<Rightarrow> body_arg \<Rightarrow> pystr option \<Rightarrow> pystr option \<Rightarrow> 'db \<times> json py"
where
  "process_inbound E process now db i body envelope_from envelope_to =
     (case prepare_message body envelope_from envelope_to of
        Inl e \<Rightarrow> (db, Inl e)
      | Inr message \<Rightarrow>
          (case process db i (py_or (fm_get E db i (lit ''object_id.model'')) (JBool False)) message
                  (truthy (fm_get E db i (lit ''original''))) (\<not> truthy (fm_get E db i (lit ''attach''))) of
             (db1, Inl e) \<Rightarrow> (db1, Inl e)
           | (db1, Inr thread_id) \<Rightarrow>
               (case fm_write E (0, db1) [i] [(lit ''date'', now)] of
                  Inl e \<Rightarrow> (db1, Inl e)
                | Inr (n, db2) \<Rightarrow> (db2, Inr (py_or thread_id (JBool False))))))"

section \<open>Fields and tokens\<close>

lemmas field_defs = F_TYPE_def F_KEY_def F_SECRET_def F_STATE_def F_CONF_def F_ACTIVE_def

lemma field_distinct [simp]:
  "F_TYPE \<noteq> F_KEY" "F_TYPE \<noteq> F_SECRET" "F_TYPE \<noteq> F_STATE" "F_TYPE \<noteq> F_CONF" "F_KEY \<noteq> F_SECRET"
  "F_KEY \<noteq> F_STATE" "F_KEY \<noteq> F_CONF" "F_SECRET \<noteq> F_STATE" "F_SECRET \<noteq> F_CONF" "F_STATE \<noteq> F_CONF"
  "F_KEY \<noteq> F_TYPE" "F_SECRET \<noteq> F_TYPE" "F_STATE \<noteq> F_TYPE" "F_CONF \<noteq> F_TYPE" "F_SECRET \<noteq> F_KEY"
  "F_STATE \<noteq> F_KEY" "F_CONF \<noteq> F_KEY" "F_STATE \<noteq> F_SECRET" "F_CONF \<noteq> F_SECRET" "F_CONF \<noteq> F_STATE"
  by (simp_all add: field_defs lit_inject del: lit_simps)

text \<open>The caller leaves the credentials alone: both fields are read-only in the form.\<close>

definition leaves_credentials :: "vals \<Rightarrow> bool" where
  "leaves_credentials vals \<longleftrightarrow> F_KEY \<notin> set (keys vals) \<and> F_SECRET \<notin> set (keys vals)"

definition credential :: "pystr \<Rightarrow> bool" where
  "credential f \<longleftrightarrow> f = F_KEY \<or> f = F_SECRET"

lemma written_setdefault:
  "written (setdefault k v d) f old = (if f = k \<and> k \<notin> set (keys d) then v else written d f old)"
  by (auto simp: written_def map_of_setdefault map_of_None_keys split: option.splits)

lemma written_same: "f \<notin> set (keys d) \<Longrightarrow> written d f old = old"
  using map_of_None_keys [of d f] by (simp add: written_def)

lemma written_twice: "written d f (written d f old) = written d f old"
  by (simp add: written_def split: option.splits)

lemma leaves_written: "leaves_credentials vals \<Longrightarrow> credential f \<Longrightarrow> written vals f old = old"
  by (auto simp: leaves_credentials_def credential_def written_same)

lemma token_truthy: "fm_random E n \<noteq> [] \<Longrightarrow> truthy (token E n)"
proof -
  assume "fm_random E n \<noteq> []"
  then have "6 \<le> 8 * length (fm_random E n) + 5" by (cases "fm_random E n") auto
  then have "0 < length (token_of_bytes (fm_random E n))" by (simp add: length_token div_greater_zero_iff)
  then show ?thesis by (simp add: token_def)
qed

section \<open>One write and one create\<close>

lemma server_values_written:
  assumes "leaves_credentials values" and "server_values E (n, db) i values = (n', v)"
    and "\<And>k. fm_random E k \<noteq> []"
  shows "credential f \<Longrightarrow> truthy (written v f (fm_get E db i f))
      \<and> (truthy (fm_get E db i f) \<longrightarrow> written v f (fm_get E db i f) = fm_get E db i f)"
    and "\<not> credential f \<Longrightarrow> f \<noteq> F_CONF \<Longrightarrow> written v f old = written values f old"
proof -
  have v: "v = (if truthy (fm_get E db i F_SECRET) then id else setdefault F_SECRET (token E (if truthy (fm_get E db i F_KEY) then n else n + 1)))
      ((if truthy (fm_get E db i F_KEY) then id else setdefault F_KEY (token E n))
        (setdefault F_CONF (JStr CONFIGURATION) values))"
    using assms(2) by (auto simp: server_values_def Let_def split: if_splits)
  show "credential f \<Longrightarrow> truthy (written v f (fm_get E db i f))
      \<and> (truthy (fm_get E db i f) \<longrightarrow> written v f (fm_get E db i f) = fm_get E db i f)"
    using assms(1) token_truthy [OF assms(3)]
    by (auto simp: v credential_def leaves_credentials_def written_setdefault set_keys_setdefault written_same)
  show "\<not> credential f \<Longrightarrow> f \<noteq> F_CONF \<Longrightarrow> written v f old = written values f old"
    by (auto simp: v credential_def written_setdefault)
qed

lemma create_vals_written:
  assumes "leaves_credentials vals" and "create_vals E n vals = (n', v)" and "\<And>k. fm_random E k \<noteq> []"
  shows "map_of v F_TYPE = map_of vals F_TYPE"
    and "map_of vals F_TYPE = Some CLOUDFLARE \<Longrightarrow> credential f \<Longrightarrow> truthy (written v f old)"
  using assms(1,2) token_truthy [OF assms(3)]
  by (auto simp: create_vals_def credential_def leaves_credentials_def written_setdefault set_keys_setdefault
      map_of_setdefault split: if_splits)

lemma create_list_all2:
  "create_list E n vs = (n', ws) \<Longrightarrow> list_all2 (\<lambda>v w. \<exists>k k'. create_vals E k v = (k', w)) vs ws"
proof (induction vs arbitrary: n n' ws)
  case (Cons v vs)
  then show ?case by (fastforce split: prod.splits)
qed simp

lemma map_of_values: "map_of (map (\<lambda>f. (f, g f)) fs) f = (if f \<in> set fs then Some (g f) else None)"
  by (induction fs) auto

lemma copied_not_credential: "copied f \<Longrightarrow> \<not> credential f"
  by (auto simp: copied_def WEBHOOK_FIELDS_def cloudflare_webhook_key_def cloudflare_webhook_secret_def credential_def)

lemma copy_leaves_credentials: "leaves_credentials (copy_vals E db copyable i)"
  using copied_not_credential by (auto simp: leaves_credentials_def copy_vals_def keys_def credential_def comp_def)

section \<open>A server's life\<close>

text \<open>
  The calls that change servers, each in its own transaction: an exception rolls it back.
\<close>

datatype fm_op =
    Create "vals list"
  | Duplicate "pystr list" nat
  | Write "nat list" vals
  | Regenerate "nat list"
  | Confirm "nat list"

fun apply_op :: "'db fm_env \<Rightarrow> nat \<times> 'db \<Rightarrow> fm_op \<Rightarrow> (nat \<times> 'db) py" where
  "apply_op E st (Create vs) = bindR (fm_create E st vs) (\<lambda>r. Inr (fst r))"
| "apply_op E st (Duplicate copyable i) = bindR (fm_copy E st copyable i) (\<lambda>r. Inr (fst r))"
| "apply_op E st (Write ids v) = fm_write E st ids v"
| "apply_op E st (Regenerate ids) = regenerate_secret E st ids"
| "apply_op E st (Confirm ids) = button_confirm_login E st ids"

definition fm_step :: "'db fm_env \<Rightarrow> nat \<times> 'db \<Rightarrow> fm_op \<Rightarrow> (nat \<times> 'db) \<times> unit py" where
  "fm_step E st op = (case apply_op E st op of Inl e \<Rightarrow> (st, Inl e) | Inr st1 \<Rightarrow> (st1, Inr ()))"

fun permitted :: "fm_op \<Rightarrow> bool" where
  "permitted (Create vs) = list_all leaves_credentials vs"
| "permitted (Write ids v) = leaves_credentials v"
| "permitted _ = True"

section \<open>The store of a fetchmail server\<close>

text \<open>The SQL constraint of the module: a webhook key belongs to one server.\<close>

definition key_unique :: "'db fm_env \<Rightarrow> 'db \<Rightarrow> bool" where
  "key_unique E db \<longleftrightarrow>
     (\<forall>i \<in> set (o_ids (fm_orm E) db). \<forall>j \<in> set (o_ids (fm_orm E) db).
        truthy (fm_get E db i F_KEY) \<and> fm_get E db i F_KEY = fm_get E db j F_KEY \<longrightarrow> i = j)"

text \<open>Every Cloudflare server has its credentials.\<close>

definition has_credentials :: "'db fm_env \<Rightarrow> 'db \<Rightarrow> bool" where
  "has_credentials E db \<longleftrightarrow>
     (\<forall>i \<in> set (o_ids (fm_orm E) db). is_cloudflare E db i \<longrightarrow>
        truthy (fm_get E db i F_KEY) \<and> truthy (fm_get E db i F_SECRET))"

locale fetchmail_store = orm_laws "fm_orm E" stored constraint
  for E :: "'db fm_env" and stored :: "pystr \<Rightarrow> bool" and constraint :: "'db \<Rightarrow> bool" +
  assumes stored_fields: "f \<in> {F_TYPE, F_KEY, F_SECRET, F_STATE, F_CONF, F_ACTIVE} \<Longrightarrow> stored f"
    and constraint_unique: "constraint db \<Longrightarrow> key_unique E db"
    and default_type: "o_default (fm_orm E) F_TYPE \<noteq> CLOUDFLARE"
    and random_length: "length (fm_random E n) = 32"
    and confirm_ids: "fm_core_confirm E db ids = Inr db' \<Longrightarrow> o_ids (fm_orm E) db' = o_ids (fm_orm E) db"
    and confirm_get: "fm_core_confirm E db ids = Inr db' \<Longrightarrow> stored f \<Longrightarrow> f \<noteq> F_STATE \<or> i \<notin> set ids \<Longrightarrow>
        fm_get E db' i f = fm_get E db i f"
begin

lemma random_nonempty: "fm_random E n \<noteq> []"
  using random_length [of n] by auto

lemma stored_simps [simp]: "stored F_TYPE" "stored F_KEY" "stored F_SECRET" "stored F_STATE" "stored F_CONF" "stored F_ACTIVE"
  by (simp_all add: stored_fields)

lemma stored_credential: "credential f \<Longrightarrow> stored f"
  by (auto simp: credential_def)

lemma core_write_get:
  "o_write (fm_orm E) db ids vals = Inr db' \<Longrightarrow> stored f \<Longrightarrow>
     fm_get E db' i f = (if i \<in> set ids then written vals f (fm_get E db i f) else fm_get E db i f)"
  by (simp add: fm_get_def write_get)

lemma write_servers_effect:
  assumes "leaves_credentials values" and "write_servers E st values is = Inr (n', db')"
  shows "o_ids (fm_orm E) db' = o_ids (fm_orm E) (snd st)
    \<and> (j \<notin> set is \<longrightarrow> stored f \<longrightarrow> fm_get E db' j f = fm_get E (snd st) j f)
    \<and> (credential f \<longrightarrow> truthy (fm_get E (snd st) j f) \<longrightarrow> fm_get E db' j f = fm_get E (snd st) j f)
    \<and> (j \<in> set is \<longrightarrow> credential f \<longrightarrow> truthy (fm_get E db' j f))
    \<and> (j \<in> set is \<longrightarrow> stored f \<longrightarrow> \<not> credential f \<longrightarrow> f \<noteq> F_CONF \<longrightarrow>
         fm_get E db' j f = written values f (fm_get E (snd st) j f))"
  using assms(2)
proof (induction "is" arbitrary: st)
  case Nil
  then show ?case by auto
next
  case (Cons i "is")
  obtain n db where st: "st = (n, db)" by (cases st)
  obtain n1 v where v: "server_values E (n, db) i values = (n1, v)" by (metis surj_pair)
  from Cons.prems obtain db1 where w: "o_write (fm_orm E) db [i] v = Inr db1"
    and r: "write_servers E (n1, db1) values is = Inr (n', db')"
    by (auto simp: st v bindR_Inr_iff)
  note sv = server_values_written [OF assms(1) v random_nonempty]
  note IH = Cons.IH [OF r, simplified]
  have g: "stored g \<Longrightarrow> fm_get E db1 k g = (if k = i then written v g (fm_get E db k g) else fm_get E db k g)" for k g
    using core_write_get [OF w] by simp
  have ids: "o_ids (fm_orm E) db1 = o_ids (fm_orm E) db" by (rule write_ids [OF w])
  have c: "truthy (fm_get E db k f) \<Longrightarrow> fm_get E db1 k f = fm_get E db k f" if "credential f" for k
    using that g [OF stored_credential [OF that]] sv(1) by auto
  have t: "truthy (fm_get E db1 i f)" if "credential f"
    using that g [OF stored_credential [OF that]] sv(1) by simp
  have o: "fm_get E db1 k f = (if k = i then written values f (fm_get E db k f) else fm_get E db k f)"
    if "stored f" "\<not> credential f" "f \<noteq> F_CONF" for k
    using g [OF that(1)] sv(2) [OF that(2,3)] by simp
  show ?case
  proof (intro conjI impI)
    show "o_ids (fm_orm E) db' = o_ids (fm_orm E) (snd st)" using IH ids by (simp add: st)
  next
    assume "j \<notin> set (i # is)" "stored f"
    with IH g show "fm_get E db' j f = fm_get E (snd st) j f" by (simp add: st)
  next
    assume "credential f" "truthy (fm_get E (snd st) j f)"
    with IH c show "fm_get E db' j f = fm_get E (snd st) j f" by (simp add: st)
  next
    assume "j \<in> set (i # is)" "credential f"
    then show "truthy (fm_get E db' j f)" using IH t by (cases "j \<in> set is") auto
  next
    assume "j \<in> set (i # is)" "stored f" "\<not> credential f" "f \<noteq> F_CONF"
    with IH o written_twice show "fm_get E db' j f = written values f (fm_get E (snd st) j f)"
      by (cases "j \<in> set is") (auto simp: st)
  qed
qed

lemma fm_write_effect:
  assumes "leaves_credentials values" and "fm_write E st ids values = Inr st'"
  shows "o_ids (fm_orm E) (snd st') = o_ids (fm_orm E) (snd st)"
    and "credential f \<Longrightarrow> truthy (fm_get E (snd st) j f) \<Longrightarrow> fm_get E (snd st') j f = fm_get E (snd st) j f"
    and "j \<notin> set ids \<Longrightarrow> stored f \<Longrightarrow> fm_get E (snd st') j f = fm_get E (snd st) j f"
    and "j \<in> set ids \<Longrightarrow> stored f \<Longrightarrow> \<not> credential f \<Longrightarrow> f \<noteq> F_CONF \<Longrightarrow>
          fm_get E (snd st') j f = written values f (fm_get E (snd st) j f)"
    and "map_of values F_TYPE = Some CLOUDFLARE \<Longrightarrow> j \<in> set ids \<Longrightarrow> credential f \<Longrightarrow> truthy (fm_get E (snd st') j f)"
proof -
  obtain n' db' where st': "st' = (n', db')" by (cases st')
  have "o_ids (fm_orm E) db' = o_ids (fm_orm E) (snd st)
    \<and> (credential f \<longrightarrow> truthy (fm_get E (snd st) j f) \<longrightarrow> fm_get E db' j f = fm_get E (snd st) j f)
    \<and> (j \<notin> set ids \<longrightarrow> stored f \<longrightarrow> fm_get E db' j f = fm_get E (snd st) j f)
    \<and> (j \<in> set ids \<longrightarrow> stored f \<longrightarrow> \<not> credential f \<longrightarrow> f \<noteq> F_CONF \<longrightarrow>
          fm_get E db' j f = written values f (fm_get E (snd st) j f))
    \<and> (map_of values F_TYPE = Some CLOUDFLARE \<longrightarrow> j \<in> set ids \<longrightarrow> credential f \<longrightarrow> truthy (fm_get E db' j f))"
  proof (cases "map_of values F_TYPE = Some CLOUDFLARE")
    case True
    with assms(2) have "write_servers E st values ids = Inr (n', db')" by (simp add: fm_write_def st')
    from write_servers_effect [OF assms(1) this, of j f] show ?thesis by simp
  next
    case False
    with assms(2) have w: "o_write (fm_orm E) (snd st) ids values = Inr db'"
      by (auto simp: fm_write_def st' bindR_Inr_iff)
    have "credential f \<longrightarrow> fm_get E db' j f = fm_get E (snd st) j f"
      using core_write_get [OF w, of f j] leaves_written [OF assms(1), of f] stored_credential by auto
    with False core_write_get [OF w, of f j] write_ids [OF w] show ?thesis by simp
  qed
  then show "o_ids (fm_orm E) (snd st') = o_ids (fm_orm E) (snd st)"
    and "credential f \<Longrightarrow> truthy (fm_get E (snd st) j f) \<Longrightarrow> fm_get E (snd st') j f = fm_get E (snd st) j f"
    and "j \<notin> set ids \<Longrightarrow> stored f \<Longrightarrow> fm_get E (snd st') j f = fm_get E (snd st) j f"
    and "j \<in> set ids \<Longrightarrow> stored f \<Longrightarrow> \<not> credential f \<Longrightarrow> f \<noteq> F_CONF \<Longrightarrow>
          fm_get E (snd st') j f = written values f (fm_get E (snd st) j f)"
    and "map_of values F_TYPE = Some CLOUDFLARE \<Longrightarrow> j \<in> set ids \<Longrightarrow> credential f \<Longrightarrow> truthy (fm_get E (snd st') j f)"
    by (simp_all add: st')
qed

lemma regenerate_effect:
  "regenerate_secret E st ids = Inr st' \<Longrightarrow>
     o_ids (fm_orm E) (snd st') = o_ids (fm_orm E) (snd st)
     \<and> (stored f \<longrightarrow> f \<noteq> F_SECRET \<or> j \<notin> set ids \<longrightarrow> fm_get E (snd st') j f = fm_get E (snd st) j f)
     \<and> (distinct ids \<longrightarrow> j \<in> set ids \<longrightarrow> (\<exists>k < length ids. ids ! k = j \<and> fm_get E (snd st') j F_SECRET = token E (fst st + k)))
     \<and> (j \<in> set ids \<longrightarrow> truthy (fm_get E (snd st') j F_SECRET))
     \<and> fst st' = fst st + length ids"
proof (induction ids arbitrary: st f j)
  case (Cons i ids)
  obtain n db where st: "st = (n, db)" by (cases st)
  from Cons.prems obtain db1 where w: "o_write (fm_orm E) db [i] [(F_SECRET, token E n)] = Inr db1"
    and r: "regenerate_secret E (n + 1, db1) ids = Inr st'"
    by (auto simp: st fm_write_def bindR_Inr_iff)
  note IH = Cons.IH [OF r, of f j, simplified]
  have g: "stored h \<Longrightarrow> fm_get E db1 k h = (if k = i \<and> h = F_SECRET then token E n else fm_get E db k h)" for k h
    using core_write_get [OF w, of h k] by (simp add: written_def)
  have t: "truthy (token E n)" by (rule token_truthy [OF random_nonempty])
  show ?case
  proof (intro conjI impI)
    show "o_ids (fm_orm E) (snd st') = o_ids (fm_orm E) (snd st)" using IH write_ids [OF w] by (simp add: st)
  next
    assume "stored f" "f \<noteq> F_SECRET \<or> j \<notin> set (i # ids)"
    with IH g show "fm_get E (snd st') j f = fm_get E (snd st) j f" by (auto simp: st)
  next
    assume d: "distinct (i # ids)" "j \<in> set (i # ids)"
    show "\<exists>k < length (i # ids). (i # ids) ! k = j \<and> fm_get E (snd st') j F_SECRET = token E (fst st + k)"
    proof (cases "j = i")
      case True
      with d have "j \<notin> set ids" by simp
      then have "fm_get E (snd st') j F_SECRET = fm_get E db1 j F_SECRET"
        using Cons.IH [OF r, of F_SECRET j] by simp
      with g True show ?thesis by (intro exI [of _ 0]) (simp add: st)
    next
      case False
      with d IH obtain k where "k < length ids" "ids ! k = j" "fm_get E (snd st') j F_SECRET = token E (n + 1 + k)"
        by auto
      then show ?thesis by (intro exI [of _ "Suc k"]) (simp add: st)
    qed
  next
    assume "j \<in> set (i # ids)"
    show "truthy (fm_get E (snd st') j F_SECRET)"
    proof (cases "j \<in> set ids")
      case False
      then have "fm_get E (snd st') j F_SECRET = fm_get E db1 j F_SECRET"
        using Cons.IH [OF r, of F_SECRET j] by simp
      with False g t \<open>j \<in> set (i # ids)\<close> show ?thesis by simp
    qed (use IH in simp)
  next
    show "fst st' = fst st + length (i # ids)" using IH by (simp add: st)
  qed
qed simp

lemma confirm_servers_effect:
  "confirm_servers E st ids = Inr st' \<Longrightarrow>
     o_ids (fm_orm E) (snd st') = o_ids (fm_orm E) (snd st)
     \<and> (stored f \<longrightarrow> f \<noteq> F_STATE \<or> j \<notin> set ids \<longrightarrow> fm_get E (snd st') j f = fm_get E (snd st) j f)
     \<and> (j \<in> set ids \<longrightarrow> fm_get E (snd st') j F_STATE = JStr (lit ''done'')
          \<and> truthy (fm_get E (snd st) j F_KEY) \<and> truthy (fm_get E (snd st) j F_SECRET))"
proof (induction ids arbitrary: st f j)
  case (Cons i ids)
  obtain n db where st: "st = (n, db)" by (cases st)
  from Cons.prems have cr: "truthy (fm_get E db i F_KEY)" "truthy (fm_get E db i F_SECRET)"
    by (auto simp: st split: if_splits)
  with Cons.prems obtain db1 where w: "o_write (fm_orm E) db [i] [(F_STATE, JStr (lit ''done''))] = Inr db1"
    and r: "confirm_servers E (n, db1) ids = Inr st'"
    by (auto simp: st fm_write_def bindR_Inr_iff simp del: lit_simps)
  have IH: "o_ids (fm_orm E) (snd st') = o_ids (fm_orm E) db1"
    "stored h \<Longrightarrow> h \<noteq> F_STATE \<or> k \<notin> set ids \<Longrightarrow> fm_get E (snd st') k h = fm_get E db1 k h"
    "k \<in> set ids \<Longrightarrow> fm_get E (snd st') k F_STATE = JStr (lit ''done'')
          \<and> truthy (fm_get E db1 k F_KEY) \<and> truthy (fm_get E db1 k F_SECRET)" for k h
    using Cons.IH [OF r, of h k] by simp_all
  have g: "stored h \<Longrightarrow> fm_get E db1 k h
      = (if k = i \<and> h = F_STATE then JStr (lit ''done'') else fm_get E db k h)" for k h
    using core_write_get [OF w, of h k] by (simp add: written_def del: lit_simps)
  show ?case
  proof (intro conjI impI)
    show "o_ids (fm_orm E) (snd st') = o_ids (fm_orm E) (snd st)" using IH(1) write_ids [OF w] by (simp add: st)
  next
    assume "stored f" "f \<noteq> F_STATE \<or> j \<notin> set (i # ids)"
    with IH(2) g show "fm_get E (snd st') j f = fm_get E (snd st) j f" by (auto simp: st)
  next
    assume "j \<in> set (i # ids)"
    with IH(2,3) g show "fm_get E (snd st') j F_STATE = JStr (lit ''done'')"
      by (cases "j \<in> set ids") (auto simp del: lit_simps)
    from \<open>j \<in> set (i # ids)\<close> IH(3) g cr show "truthy (fm_get E (snd st) j F_KEY)" "truthy (fm_get E (snd st) j F_SECRET)"
      by (auto simp: st)
  qed
qed simp

lemma create_effect:
  assumes "list_all leaves_credentials vs" and "fm_create E st vs = Inr (st', new)"
  shows "set (o_ids (fm_orm E) (snd st')) = set (o_ids (fm_orm E) (snd st)) \<union> set new"
    and "j \<in> set (o_ids (fm_orm E) (snd st)) \<Longrightarrow> stored f \<Longrightarrow> fm_get E (snd st') j f = fm_get E (snd st) j f"
    and "j \<in> set new \<Longrightarrow> is_cloudflare E (snd st') j \<Longrightarrow> credential f \<Longrightarrow> truthy (fm_get E (snd st') j f)"
proof -
  obtain n ws where cl: "create_list E (fst st) vs = (n, ws)" by (metis surj_pair)
  with assms(2) obtain db where c: "o_create (fm_orm E) (snd st) ws = Inr (db, new)" and st': "st' = (n, db)"
    by (auto simp: fm_create_def bindR_Inr_iff)
  show "set (o_ids (fm_orm E) (snd st')) = set (o_ids (fm_orm E) (snd st)) \<union> set new"
    using create_ids [OF c] by (simp add: st')
  show "j \<in> set (o_ids (fm_orm E) (snd st)) \<Longrightarrow> stored f \<Longrightarrow> fm_get E (snd st') j f = fm_get E (snd st) j f"
    using create_old [OF c] by (simp add: st' fm_get_def)
  assume j: "j \<in> set new" and cf: "is_cloudflare E (snd st') j" and f: "credential f"
  from j obtain k where k: "k < length new" "new ! k = j" by (auto simp: in_set_conv_nth)
  note all2 = create_list_all2 [OF cl]
  have len: "length ws = length new" "length vs = length ws"
    using create_ids [OF c] list_all2_lengthD [OF all2] by simp_all
  have g: "stored h \<Longrightarrow> fm_get E db j h = written (ws ! k) h (o_default (fm_orm E) h)" for h
    using create_new [OF c, of h k] k len by (simp add: fm_get_def)
  have kv: "k < length vs" using k(1) len by simp
  then obtain a b where cv: "create_vals E a (vs ! k) = (b, ws ! k)"
    using all2 by (auto simp: list_all2_conv_all_nth)
  have lv: "leaves_credentials (vs ! k)" using assms(1) kv by (simp add: list_all_length)
  note w = create_vals_written [OF lv cv random_nonempty]
  have "written (ws ! k) F_TYPE (o_default (fm_orm E) F_TYPE) = CLOUDFLARE"
    using cf g [of F_TYPE] by (simp add: is_cloudflare_def st')
  then have "map_of (ws ! k) F_TYPE = Some CLOUDFLARE"
    using default_type by (auto simp: written_def split: option.splits)
  with w(1) have "map_of (vs ! k) F_TYPE = Some CLOUDFLARE" by simp
  from w(2) [OF this f] g [OF stored_credential [OF f]] show "truthy (fm_get E (snd st') j f)"
    by (simp add: st')
qed

lemma create_credentials:
  assumes "list_all leaves_credentials vs" and "fm_create E st vs = Inr (st', new)" and "has_credentials E (snd st)"
  shows "has_credentials E (snd st')"
  unfolding has_credentials_def
proof (intro ballI impI)
  note eff = create_effect [OF assms(1,2)]
  fix i assume i: "i \<in> set (o_ids (fm_orm E) (snd st'))" "is_cloudflare E (snd st') i"
  show "truthy (fm_get E (snd st') i F_KEY) \<and> truthy (fm_get E (snd st') i F_SECRET)"
  proof (cases "i \<in> set (o_ids (fm_orm E) (snd st))")
    case True
    with assms(3) i(2) eff(2) [OF True] show ?thesis by (simp add: has_credentials_def is_cloudflare_def)
  next
    case False
    with i(1) eff(1) have "i \<in> set new" by simp
    with eff(3) i(2) show ?thesis by (simp add: credential_def)
  qed
qed

text \<open>A duplicate gets a key and a secret of its own draws, and the original keeps its values.\<close>

lemma copy_effect:
  assumes "fm_copy E (n, db) copyable i = Inr ((n', db'), new)"
    and "is_cloudflare E db i" and "F_TYPE \<in> set copyable"
  shows "n' = n + 2 \<and> (\<exists>j. new = [j] \<and> j \<notin> set (o_ids (fm_orm E) db) \<and> is_cloudflare E db' j
      \<and> fm_get E db' j F_KEY = token E n \<and> fm_get E db' j F_SECRET = token E (n + 1))"
    and "k \<in> set (o_ids (fm_orm E) db) \<Longrightarrow> stored f \<Longrightarrow> fm_get E db' k f = fm_get E db k f"
proof -
  let ?v = "copy_vals E db copyable i"
  let ?w = "setdefault F_CONF (JStr CONFIGURATION) (setdefault F_SECRET (token E (n + 1)) (setdefault F_KEY (token E n) ?v))"
  have "copied F_TYPE"
    by (simp add: copied_def WEBHOOK_FIELDS_def cloudflare_webhook_key_def cloudflare_webhook_secret_def
        cloudflare_webhook_url_def F_URL_def field_defs lit_inject del: lit_simps)
  with assms(2,3) have t: "map_of ?v F_TYPE = Some CLOUDFLARE"
    by (simp add: copy_vals_def is_cloudflare_def map_of_values)
  then have cv: "create_vals E n ?v = (n + 2, ?w)" by (simp add: create_vals_def)
  from assms(1) have c: "o_create (fm_orm E) db [?w] = Inr (db', new)" and n: "n' = n + 2"
    by (auto simp: fm_copy_def fm_create_def cv bindR_Inr_iff)
  from create_ids [OF c] obtain j where j: "new = [j]" "j \<notin> set (o_ids (fm_orm E) db)"
    by (cases new) auto
  have g: "fm_get E db' j f = written ?w f (o_default (fm_orm E) f)" if "stored f" for f
    using create_new [OF c that, of 0] by (simp add: fm_get_def j)
  have l: "F_KEY \<notin> set (keys ?v)" "F_SECRET \<notin> set (keys ?v)"
    using copy_leaves_credentials [of E db copyable i] unfolding leaves_credentials_def by blast+
  have "fm_get E db' j F_KEY = token E n" "fm_get E db' j F_SECRET = token E (n + 1)" "is_cloudflare E db' j"
    using l t by (simp_all add: g is_cloudflare_def written_setdefault set_keys_setdefault) (simp_all add: written_def)
  with j n show "n' = n + 2 \<and> (\<exists>j. new = [j] \<and> j \<notin> set (o_ids (fm_orm E) db) \<and> is_cloudflare E db' j
      \<and> fm_get E db' j F_KEY = token E n \<and> fm_get E db' j F_SECRET = token E (n + 1))" by simp
  show "k \<in> set (o_ids (fm_orm E) db) \<Longrightarrow> stored f \<Longrightarrow> fm_get E db' k f = fm_get E db k f"
    using create_old [OF c] by (simp add: fm_get_def)
qed

lemma confirm_effect:
  assumes "button_confirm_login E st ids = Inr st'"
  shows "o_ids (fm_orm E) (snd st') = o_ids (fm_orm E) (snd st)"
    and "stored f \<Longrightarrow> f \<noteq> F_STATE \<Longrightarrow> fm_get E (snd st') j f = fm_get E (snd st) j f"
proof -
  from assms obtain st1 where c: "confirm_servers E st (filter (is_cloudflare E (snd st)) ids) = Inr st1"
    and k: "fm_core_confirm E (snd st1) (filter (\<lambda>i. \<not> is_cloudflare E (snd st) i) ids) = Inr (snd st')"
    by (auto simp: button_confirm_login_def bindR_Inr_iff)
  show "o_ids (fm_orm E) (snd st') = o_ids (fm_orm E) (snd st)"
    using confirm_servers_effect [OF c] confirm_ids [OF k] by simp
  show "stored f \<Longrightarrow> f \<noteq> F_STATE \<Longrightarrow> fm_get E (snd st') j f = fm_get E (snd st) j f"
    using confirm_servers_effect [OF c, of f j] confirm_get [OF k, of f j] by simp
qed

text \<open>A call that the caller may make keeps the records, their keys and the invariant.\<close>

lemma apply_op_effect:
  assumes "permitted op" and "apply_op E st op = Inr st'"
  shows "set (o_ids (fm_orm E) (snd st)) \<subseteq> set (o_ids (fm_orm E) (snd st'))"
    and "j \<in> set (o_ids (fm_orm E) (snd st)) \<Longrightarrow> truthy (fm_get E (snd st) j F_KEY) \<Longrightarrow>
          fm_get E (snd st') j F_KEY = fm_get E (snd st) j F_KEY"
    and "has_credentials E (snd st) \<Longrightarrow> has_credentials E (snd st')"
proof -
  have "set (o_ids (fm_orm E) (snd st)) \<subseteq> set (o_ids (fm_orm E) (snd st'))
    \<and> (j \<in> set (o_ids (fm_orm E) (snd st)) \<longrightarrow> truthy (fm_get E (snd st) j F_KEY) \<longrightarrow>
          fm_get E (snd st') j F_KEY = fm_get E (snd st) j F_KEY)
    \<and> (has_credentials E (snd st) \<longrightarrow> has_credentials E (snd st'))"
  proof (cases op)
    case (Create vs)
    with assms obtain new where "list_all leaves_credentials vs" "fm_create E st vs = Inr (st', new)"
      by (auto simp: bindR_Inr_iff)
    from create_effect(1,2) [OF this] create_credentials [OF this] show ?thesis by auto
  next
    case (Duplicate copyable i)
    with assms obtain new where c: "fm_create E st [copy_vals E (snd st) copyable i] = Inr (st', new)"
      by (auto simp: bindR_Inr_iff fm_copy_def)
    have l: "list_all leaves_credentials [copy_vals E (snd st) copyable i]" by (simp add: copy_leaves_credentials)
    from create_effect(1,2) [OF l c] create_credentials [OF l c] show ?thesis by auto
  next
    case (Write ids v)
    with assms have l: "leaves_credentials v" and w: "fm_write E st ids v = Inr st'" by simp_all
    note eff = fm_write_effect [OF l w]
    have "has_credentials E (snd st')" if h: "has_credentials E (snd st)"
      unfolding has_credentials_def
    proof (intro ballI impI)
      fix i assume i: "i \<in> set (o_ids (fm_orm E) (snd st'))" "is_cloudflare E (snd st') i"
      show "truthy (fm_get E (snd st') i F_KEY) \<and> truthy (fm_get E (snd st') i F_SECRET)"
      proof (cases "i \<in> set ids \<and> map_of v F_TYPE \<noteq> None")
        case True
        then have "map_of v F_TYPE = Some CLOUDFLARE"
          using i(2) eff(4) [of i F_TYPE] by (auto simp: is_cloudflare_def credential_def written_def)
        with eff(5) True show ?thesis by (simp add: credential_def)
      next
        case False
        then have "fm_get E (snd st') i F_TYPE = fm_get E (snd st) i F_TYPE"
          using eff(3) [of i F_TYPE] eff(4) [of i F_TYPE] by (auto simp: credential_def written_def)
        with i h eff(1) have "truthy (fm_get E (snd st) i F_KEY)" "truthy (fm_get E (snd st) i F_SECRET)"
          by (auto simp: has_credentials_def is_cloudflare_def)
        with eff(2) [of F_KEY i] eff(2) [of F_SECRET i] show ?thesis by (simp add: credential_def)
      qed
    qed
    with eff(1) eff(2) [of F_KEY j] show ?thesis by (simp add: credential_def)
  next
    case (Regenerate ids)
    with assms have r: "regenerate_secret E st ids = Inr st'" by simp
    have "stored f \<Longrightarrow> f \<noteq> F_SECRET \<Longrightarrow> fm_get E (snd st') i f = fm_get E (snd st) i f" for i f
      using regenerate_effect [OF r, of f i] by simp
    moreover have "truthy (fm_get E (snd st) i F_SECRET) \<Longrightarrow> truthy (fm_get E (snd st') i F_SECRET)" for i
      using regenerate_effect [OF r, of F_SECRET i] by (cases "i \<in> set ids") simp_all
    moreover have "o_ids (fm_orm E) (snd st') = o_ids (fm_orm E) (snd st)"
      using regenerate_effect [OF r] by blast
    ultimately show ?thesis by (simp add: has_credentials_def is_cloudflare_def)
  next
    case (Confirm ids)
    with assms have "button_confirm_login E st ids = Inr st'" by simp
    from confirm_effect [OF this] show ?thesis
      by (simp add: has_credentials_def is_cloudflare_def)
  qed
  then show "set (o_ids (fm_orm E) (snd st)) \<subseteq> set (o_ids (fm_orm E) (snd st'))"
    and "j \<in> set (o_ids (fm_orm E) (snd st)) \<Longrightarrow> truthy (fm_get E (snd st) j F_KEY) \<Longrightarrow>
          fm_get E (snd st') j F_KEY = fm_get E (snd st) j F_KEY"
    and "has_credentials E (snd st) \<Longrightarrow> has_credentials E (snd st')" by simp_all
qed

end

text \<open>Both are invariants of every run of permitted calls.\<close>

definition holds_key :: "'db fm_env \<Rightarrow> nat \<Rightarrow> json \<Rightarrow> nat \<times> 'db \<Rightarrow> bool" where
  "holds_key E i k st \<longleftrightarrow> i \<in> set (o_ids (fm_orm E) (snd st)) \<and> fm_get E (snd st) i F_KEY = k \<and> truthy k"

sublocale fetchmail_store < creds: step_invariant "fm_step E" "\<lambda>st. has_credentials E (snd st)" permitted
proof
  fix st :: "nat \<times> 'db" and op
  assume "has_credentials E (snd st)" "permitted op"
  then show "has_credentials E (snd (fst (fm_step E st op)))"
    using apply_op_effect(3) [of op st] by (auto simp: fm_step_def split: sum.split)
qed

sublocale fetchmail_store < webhook_key: step_invariant "fm_step E" "holds_key E i k" permitted for i k
proof
  fix st :: "nat \<times> 'db" and op
  assume h: "holds_key E i k st" and p: "permitted op"
  show "holds_key E i k (fst (fm_step E st op))"
  proof (cases "apply_op E st op")
    case (Inr st')
    from apply_op_effect(1,2) [OF p Inr] h show ?thesis by (auto simp: fm_step_def Inr holds_key_def)
  qed (simp add: fm_step_def h)
qed

context fetchmail_store begin

lemma run_credentials:
  "has_credentials E (snd st) \<Longrightarrow> list_all permitted ops \<Longrightarrow> has_credentials E (snd (fst (run_steps (fm_step E) st ops)))"
  by (rule creds.run_keeps)

lemma run_holds_key:
  "holds_key E i k st \<Longrightarrow> list_all permitted ops \<Longrightarrow> holds_key E i k (fst (run_steps (fm_step E) st ops))"
  by (rule webhook_key.run_keeps)

lemma find_by_key_one:
  assumes "find_by_key E db key = [i]"
  shows "i \<in> set (o_ids (fm_orm E) db)" "is_cloudflare E db i" "fm_get E db i F_KEY = JStr key"
    "fm_get E db i F_STATE = JStr (lit ''done'')" "truthy (fm_get E db i F_ACTIVE)" "key \<noteq> []"
  using assms search_sound [of i db "key_domain key" 1]
  by (auto simp: find_by_key_def matches_def key_domain_def is_cloudflare_def fm_get_def F_ACTIVE_def
      simp del: lit_simps split: if_splits)

lemma find_by_key_cases:
  obtains "find_by_key E db key = []" "key = [] \<or> (\<forall>i. \<not> matches (fm_orm E) db (key_domain key) i)"
  | i where "find_by_key E db key = [i]"
proof (cases "key = []")
  case True
  with that(1) show thesis by (simp add: find_by_key_def)
next
  case False
  then show thesis
    by (cases rule: search_one [of db "key_domain key"]) (auto intro: that simp: find_by_key_def)
qed

end

section \<open>The store in memory\<close>

definition memory_default :: "pystr \<Rightarrow> json" where
  "memory_default f =
     (if f = F_TYPE then JStr (lit ''imap'') else if f = F_STATE then JStr (lit ''draft'')
      else if f = F_ACTIVE then JBool True else JBool False)"

definition memory_key_unique :: "memory \<Rightarrow> bool" where
  "memory_key_unique m \<longleftrightarrow>
     list_all (\<lambda>i. list_all (\<lambda>j.
        truthy (mem_get memory_default m i F_KEY)
          \<and> mem_get memory_default m i F_KEY = mem_get memory_default m j F_KEY \<longrightarrow> i = j) (mem_ids m)) (mem_ids m)"

definition memory_fetchmail_orm :: "memory orm" where
  "memory_fetchmail_orm = memory_orm memory_default memory_key_unique"

definition memory_env :: "(nat \<Rightarrow> bytes) \<Rightarrow> pystr \<Rightarrow> memory fm_env" where
  "memory_env random base_url =
     \<lparr>fm_orm = memory_fetchmail_orm, fm_random = (\<lambda>n. take 32 (random n @ replicate 32 0)),
      fm_base_url = (\<lambda>m. JStr base_url), fm_interp = plain_interp, fm_netloc_ok = (\<lambda>n. True),
      fm_tr = (\<lambda>m as. m), fm_codec_text = [],
      fm_core_confirm = (\<lambda>m ids. o_write memory_fetchmail_orm m ids [(F_STATE, JStr (lit ''done''))]),
      fm_core_connect = (\<lambda>m i a. Inr JNull)\<rparr>"

lemma memory_env_orm [simp]: "fm_orm (memory_env random base_url) = memory_orm memory_default memory_key_unique"
  by (simp add: memory_env_def memory_fetchmail_orm_def)

interpretation memory_store: fetchmail_store "memory_env random base_url" "\<lambda>f. True" memory_key_unique
  for random base_url
proof (intro fetchmail_store.intro fetchmail_store_axioms.intro)
  let ?E = "memory_env random base_url"
  show "orm_laws (fm_orm ?E) (\<lambda>f. True) memory_key_unique"
    unfolding memory_env_orm by (rule memory.orm_laws_axioms)
  fix db db' :: memory and ids f i n
  show "memory_key_unique db \<Longrightarrow> key_unique ?E db"
    unfolding memory_key_unique_def key_unique_def fm_get_def memory_env_orm
    by (auto simp: list_all_iff memory_orm_def)
  show "o_default (fm_orm ?E) F_TYPE \<noteq> CLOUDFLARE"
    by (simp add: memory_orm_def memory_default_def CLOUDFLARE_def)
  show "length (fm_random ?E n) = 32"
    by (simp add: memory_env_def)
  assume "fm_core_confirm ?E db ids = Inr db'"
  then have w: "o_write (memory_orm memory_default memory_key_unique) db ids [(F_STATE, JStr (lit ''done''))] = Inr db'"
    by (simp add: memory_env_def memory_fetchmail_orm_def del: lit_simps)
  show "o_ids (fm_orm ?E) db' = o_ids (fm_orm ?E) db"
    using memory.write_ids [OF w] by simp
  show "f \<noteq> F_STATE \<or> i \<notin> set ids \<Longrightarrow> fm_get ?E db' i f = fm_get ?E db i f"
    using memory.write_get [OF w, where f = f and i = i] by (auto simp: fm_get_def written_def)
qed simp

section \<open>Properties\<close>




definition sample_store :: memory where
  "sample_store = [(7, [(F_TYPE, CLOUDFLARE), (F_KEY, JStr (lit ''k'')), (F_SECRET, JStr (lit ''0123456789abcdef'')),
     (F_STATE, JStr (lit ''done''))])]"

lemma sample_get:
  "fm_get (memory_env r b) sample_store 7 F_KEY = JStr (lit ''k'')"
  "fm_get (memory_env r b) sample_store 7 F_SECRET = JStr (lit ''0123456789abcdef'')"
  "fm_get (memory_env r b) sample_store 7 F_TYPE = CLOUDFLARE"
  "fm_get (memory_env r b) sample_store 7 F_STATE = JStr (lit ''done'')"
  "o_ids (fm_orm (memory_env r b)) sample_store = [7]"
  by (simp_all add: fm_get_def memory_orm_def mem_get_def mem_ids_def sample_store_def written_def del: lit_simps)

lemma sample_matches: "matches (fm_orm (memory_env r b)) sample_store (key_domain (lit ''k'')) 7"
  unfolding matches_def key_domain_def
  using sample_get [of r b]
  by (simp add: fm_get_def del: lit_simps)
    (simp add: memory_orm_def mem_get_def sample_store_def written_def memory_default_def field_defs)

lemma sample_find: "find_by_key (memory_env r b) sample_store (lit ''k'') = [7]"
proof (cases rule: memory_store.find_by_key_cases [where db = sample_store and key = "lit ''k''" and random = r and base_url = b])
  case 1
  then show ?thesis using sample_matches [of r b] by auto
next
  case (2 i)
  then show ?thesis using memory_store.find_by_key_one(1) [OF 2] sample_get(5) [of r b] by simp
qed


text \<open>
  Regenerating secrets gives every listed server the secret of its own draw, changes no key
  and no other server's secret.
\<close>

theorem regenerate_replaces_secret:
  assumes "fetchmail_store E stored constraint" and "regenerate_secret E (n, db) ids = Inr (n', db')" and "distinct ids"
  shows "n' = n + length ids \<and> fm_get E db' j F_KEY = fm_get E db j F_KEY
    \<and> (if k < length ids then fm_get E db' (ids ! k) F_SECRET = token E (n + k) else True)
    \<and> (if j \<in> set ids then True else fm_get E db' j F_SECRET = fm_get E db j F_SECRET)"
proof -
  note eff = fetchmail_store.regenerate_effect [OF assms(1,2)]
  have st: "stored F_KEY" "stored F_SECRET"
    using fetchmail_store.stored_simps [OF assms(1)] by simp_all
  have "fm_get E db' (ids ! k) F_SECRET = token E (n + k)" if k: "k < length ids"
  proof -
    obtain l where "l < length ids" "ids ! l = ids ! k" "fm_get E db' (ids ! k) F_SECRET = token E (n + l)"
      using eff [where f = F_KEY and j = "ids ! k"] assms(3) k by auto
    with assms(3) k show ?thesis by (simp add: nth_eq_iff_index_eq)
  qed
  with eff [where f = F_KEY and j = j] eff [where f = F_SECRET and j = j] st show ?thesis by simp
qed

lemma single_write:
  "\<exists>r'. o_write (memory_orm memory_default memory_key_unique) [(i, r)] [i] vals = Inr [(i, r')]"
  by (simp add: memory_orm_def mem_write_def memory_key_unique_def mem_ids_def Let_def)

theorem regenerate_replaces_secret_witness:
  "\<exists>db'. regenerate_secret (memory_env (\<lambda>n. []) []) (0, sample_store) [7] = Inr (1, db')
     \<and> fm_get (memory_env (\<lambda>n. []) []) db' 7 F_KEY = JStr (lit ''k'')
     \<and> fm_get (memory_env (\<lambda>n. []) []) db' 7 F_SECRET = token (memory_env (\<lambda>n. []) []) 0"
proof -
  let ?E = "memory_env (\<lambda>n. []) []"
  obtain db' where "o_write (memory_orm memory_default memory_key_unique) sample_store [7] [(F_SECRET, token ?E 0)] = Inr db'"
    using single_write unfolding sample_store_def by blast
  then have r: "regenerate_secret ?E (0, sample_store) [7] = Inr (1, db')"
    by (simp add: fm_write_def)
  from regenerate_replaces_secret [OF memory_store.fetchmail_store_axioms r, of 7 0] r show ?thesis
    unfolding sample_get by simp
qed

text \<open>
  Confirmation is sound: when the button succeeds, the base URL it saw was https (or http
  on a loopback host), and every Cloudflare server of the selection has its key and secret and
  is in state \<open>done\<close>.
\<close>

theorem confirm_sound:
  assumes "fetchmail_store E stored constraint" and "button_confirm_login E (n, db) ids = Inr (n', db')"
    and "i \<in> set ids" and "is_cloudflare E db i"
  shows "base_url_ok E (text_of (py_or (fm_base_url E db) (JStr []))) = Inr True
    \<and> truthy (fm_get E db' i F_KEY) \<and> truthy (fm_get E db' i F_SECRET)
    \<and> fm_get E db' i F_STATE = JStr (lit ''done'')"
proof -
  let ?cf = "filter (is_cloudflare E db) ids" and ?rest = "filter (\<lambda>i. \<not> is_cloudflare E db i) ids"
  obtain st1 where c: "confirm_servers E (n, db) ?cf = Inr st1"
    and k: "fm_core_confirm E (snd st1) ?rest = Inr db'"
    using assms(2) by (auto simp: button_confirm_login_def bindR_Inr_iff)
  have i: "i \<in> set ?cf" "i \<notin> set ?rest" using assms(3,4) by auto
  then obtain j js where "?cf = j # js" by (cases ?cf) auto
  with c have "check_base_url E db = Inr ()"
    by (auto simp: bindR_Inr_iff split: if_splits)
  then have url: "base_url_ok E (text_of (py_or (fm_base_url E db) (JStr []))) = Inr True"
    by (auto simp: check_base_url_def Let_def bindR_Inr_iff split: if_splits)
  have st: "stored F_KEY" "stored F_SECRET" "stored F_STATE"
    using fetchmail_store.stored_simps [OF assms(1)] by simp_all
  note eff = fetchmail_store.confirm_servers_effect [OF assms(1) c]
  note core = fetchmail_store.confirm_get [OF assms(1) k]
  show ?thesis
    using url i st eff [where f = F_KEY and j = i] eff [where f = F_SECRET and j = i] eff [where f = F_STATE and j = i]
      core [of F_KEY i] core [of F_SECRET i] core [of F_STATE i]
    by (simp del: lit_simps)
qed

theorem confirm_sound_witness:
  "\<exists>n' db'. button_confirm_login (memory_env (\<lambda>n. []) (lit ''https://odoo.example'')) (0, sample_store) [7] = Inr (n', db')
     \<and> fm_get (memory_env (\<lambda>n. []) (lit ''https://odoo.example'')) db' 7 F_STATE = JStr (lit ''done'')"
proof -
  let ?E = "memory_env (\<lambda>n. []) (lit ''https://odoo.example'')"
  have ok: "base_url_ok ?E (lit ''https://odoo.example'') = Inr True"
    by (simp add: base_url_ok_def urlsplit_def split_scheme_def clean_url_def partition1_def netloc_of_def
        is_alpha_def scheme_char_def ascii_lower_def memory_env_def)
  obtain r where w: "o_write (memory_orm memory_default memory_key_unique) sample_store [7] [(F_STATE, JStr (lit ''done''))]
      = Inr [(7, r)]"
    using single_write unfolding sample_store_def by blast
  have cf: "is_cloudflare ?E sample_store 7" by (simp only: is_cloudflare_def sample_get)
  have b: "fm_base_url ?E sample_store = JStr (lit ''https://odoo.example'')"
    by (simp add: memory_env_def del: lit_simps)
  have "check_base_url ?E sample_store = Inr ()"
    unfolding check_base_url_def b using ok by (simp add: py_or_def del: lit_simps) simp
  then have "confirm_servers ?E (0, sample_store) [7] = Inr (0, [(7, r)])"
    using w by (simp add: sample_get fm_write_def del: lit_simps) simp
  moreover have "fm_core_confirm ?E [(7, r)] [] = Inr [(7, r)]"
    by (simp add: memory_env_def memory_fetchmail_orm_def memory_orm_def mem_write_def Let_def)
  ultimately have "button_confirm_login ?E (0, sample_store) [7] = Inr (0, [(7, r)])"
    using cf by (simp add: button_confirm_login_def del: lit_simps)
  from confirm_sound [OF memory_store.fetchmail_store_axioms this _ cf] this show ?thesis
    by (auto simp del: lit_simps)
qed

text \<open>
  The look-up by key is exact: it finds a server exactly if the key is not empty and some
  active, confirmed Cloudflare server has it, and what it finds is one such server.
\<close>

theorem find_by_key_exact:
  assumes "fetchmail_store E stored constraint"
  shows "case find_by_key E db key of
      [] \<Rightarrow> key = [] \<or> list_all (\<lambda>i. \<not> matches (fm_orm E) db (key_domain key) i) (o_ids (fm_orm E) db)
    | [i] \<Rightarrow> key \<noteq> [] \<and> i \<in> set (o_ids (fm_orm E) db) \<and> is_cloudflare E db i \<and> fm_get E db i F_KEY = JStr key
        \<and> fm_get E db i F_STATE = JStr (lit ''done'') \<and> truthy (fm_get E db i F_ACTIVE)
    | _ \<Rightarrow> False"
proof (rule fetchmail_store.find_by_key_cases [OF assms, of db key])
  assume "find_by_key E db key = []" "key = [] \<or> (\<forall>i. \<not> matches (fm_orm E) db (key_domain key) i)"
  then show ?thesis by (auto simp: list_all_iff)
next
  fix i
  assume f: "find_by_key E db key = [i]"
  from fetchmail_store.find_by_key_one [OF assms f] show ?thesis by (simp add: f del: lit_simps)
qed

theorem find_by_key_exact_witness:
  "find_by_key (memory_env (\<lambda>n. []) []) sample_store (lit ''k'') = [7]
   \<and> find_by_key (memory_env (\<lambda>n. []) []) sample_store (lit ''x'') = []"
proof -
  let ?E = "memory_env (\<lambda>n. []) []"
  note m = sample_matches [of "\<lambda>n. []" "[]"]
  have ids: "o_ids (fm_orm ?E) sample_store = [7]" by (rule sample_get)
  note F = find_by_key_exact [OF memory_store.fetchmail_store_axioms [of "\<lambda>n. []" "[]"], where db = sample_store]
  have one: "find_by_key ?E sample_store k = [7] \<and> k = lit ''k''" if "find_by_key ?E sample_store k \<noteq> []" for k
  proof -
    from that obtain i r where c: "find_by_key ?E sample_store k = i # r" by (cases "find_by_key ?E sample_store k") auto
    with F [where key = k] have "r = []" "i \<in> set [7]" "fm_get ?E sample_store i F_KEY = JStr k"
      unfolding ids c by (auto split: list.splits)
    with c sample_get(1) show ?thesis by (simp del: lit_simps)
  qed
  have "find_by_key ?E sample_store (lit ''k'') \<noteq> []"
  proof
    assume c: "find_by_key ?E sample_store (lit ''k'') = []"
    have "lit ''k'' = [] \<or> list_all (\<lambda>i. \<not> matches (fm_orm ?E) sample_store (key_domain (lit ''k'')) i) [7]"
      using F [where key = "lit ''k''"] unfolding ids c list.case .
    with m show False by (simp del: lit_simps) simp
  qed
  from one [OF this] one [of "lit ''x''"] show ?thesis
    by (auto simp: lit_inject simp del: lit_simps)
qed

text \<open>
  Polling stays away: \<open>fetch_mail\<close> hands no Cloudflare server to core, and the domain the
  polling cron is switched by matches none, so such servers never turn it on.
\<close>

theorem polling_excludes_cloudflare:
  "list_all (\<lambda>i. \<not> is_cloudflare E db i) (fetch_mail E db ids)
   \<and> (case update_cron running exists of
        None \<Rightarrow> running \<or> exists = False
      | Some conds \<Rightarrow> \<not> running \<and> exists \<and> \<not> (is_cloudflare E db i \<and> matches (fm_orm E) db conds i))"
  by (auto simp: fetch_mail_def update_cron_def list_all_iff matches_def is_cloudflare_def fm_get_def)

end
