(* ===== verification/Inbound.thy ===== *)
theory Inbound
  imports Fetchmail
begin

text \<open>
  The webhook (\<open>controllers/main.py\<close>): one POST of the Worker, from the server look-up over
  the signature to the processing, with the transaction rolled back on every failure that is
  answered; and the Worker's side of it (\<open>inbox-do.ts\<close>: the headers of an attempt, and
  \<open>lib/backoff.ts\<close>: what it makes of the status).
\<close>

section \<open>The controller\<close>

definition HEADER_ID :: pystr where "HEADER_ID = lit ''X-Mail-Cloudflare-Id''"

definition HEADER_TIMESTAMP :: pystr where "HEADER_TIMESTAMP = lit ''X-Mail-Cloudflare-Timestamp''"

definition HEADER_SIGNATURE :: pystr where "HEADER_SIGNATURE = lit ''X-Mail-Cloudflare-Signature''"

definition HEADER_ENVELOPE_FROM :: pystr where "HEADER_ENVELOPE_FROM = lit ''X-Mail-Cloudflare-Envelope-From''"

definition HEADER_ENVELOPE_TO :: pystr where "HEADER_ENVELOPE_TO = lit ''X-Mail-Cloudflare-Envelope-To''"

text \<open>
  \<open>headers.get(name)\<close>: names are ASCII and their case does not matter. The server has joined
  repeated fields, so a name stands once.
\<close>

type_synonym http_headers = "(pystr \<times> pystr) list"

fun headers_get :: "http_headers \<Rightarrow> pystr \<Rightarrow> pystr option" where
  "headers_get [] name = None"
| "headers_get ((k, v) # hs) name =
     (if map ascii_lower k = map ascii_lower name then Some v else headers_get hs name)"

text \<open>The answer: a status and a JSON object. An empty error text is left out.\<close>

record answer =
  ans_status :: int
  ans_payload :: "(pystr \<times> json) list"

definition respond :: "int \<Rightarrow> pystr option \<Rightarrow> (pystr \<times> json) list \<Rightarrow> answer" where
  "respond status error values =
     \<lparr>ans_status = status,
      ans_payload = (lit ''ok'', JBool (status = 200)) # values
        @ (case error of None \<Rightarrow> [] | Some t \<Rightarrow> if t \<noteq> [] then [(lit ''error'', JStr t)] else [])\<rparr>"

text \<open>\<open>str(error)\<close>; the text of a \<open>UnicodeEncodeError\<close> is the codec's.\<close>

definition error_text :: "'db fm_env \<Rightarrow> py_exc \<Rightarrow> pystr" where
  "error_text E e = (if e = UnicodeEncodeError then fm_codec_text E else cf_message e)"

text \<open>
  The handler. It returns the database as the transaction leaves it: \<open>cr.rollback()\<close> is the
  state the request found. A concurrency error is passed on to the server, which runs the
  request again.
\<close>

definition inbound ::
  "'db fm_env \<Rightarrow> 'db processor \<Rightarrow> int \<Rightarrow> json \<Rightarrow> 'db \<Rightarrow> pystr \<Rightarrow> http_headers \<Rightarrow> bytes \<Rightarrow> 'db \<times> answer py"
where
  "inbound E process clock now db key headers body =
     (let worker_id = (case headers_get headers HEADER_ID of
                         None \<Rightarrow> JBool False | Some s \<Rightarrow> py_or (JStr s) (JBool False)) in
      case find_by_key E db key of
        [] \<Rightarrow> (db, Inr (respond 404 (Some (lit ''unknown webhook key'')) []))
      | i # _ \<Rightarrow>
          (case verify_signature (fm_interp E) (secret_of E db i) (headers_get headers HEADER_TIMESTAMP)
                  (headers_get headers HEADER_SIGNATURE) (BodyBytes body) clock of
             Inl e \<Rightarrow> (db, Inl e)
           | Inr valid \<Rightarrow>
               if \<not> valid then (db, Inr (respond 401 (Some (lit ''invalid signature'')) []))
               else
                 (case process_inbound E process now db i (BodyBytes body)
                         (headers_get headers HEADER_ENVELOPE_FROM) (headers_get headers HEADER_ENVELOPE_TO) of
                    (db1, Inr thread_id) \<Rightarrow>
                      (db1, Inr (respond 200 None [(lit ''thread_id'', py_or thread_id (JBool False)), (lit ''id'', worker_id)]))
                  | (db1, Inl e) \<Rightarrow>
                      if is_value_error e then (db, Inr (respond 422 (Some (error_text E e)) []))
                      else if e = PgConcurrency then (db1, Inl e)
                      else (db, Inr (respond 500 (Some (lit ''internal error'')) [])))))"

section \<open>The Worker's attempt\<close>

text \<open>\<open>classifyStatus\<close>\<close>

datatype outcome = Delivered | RetryLater | Rejected

definition classify_status :: "int \<Rightarrow> outcome" where
  "classify_status status =
     (if 200 \<le> status \<and> status < 300 then Delivered
      else if status = 408 \<or> status = 429 \<or> (500 \<le> status \<and> status < 600) then RetryLater
      else Rejected)"

text \<open>
  The headers of \<open>deliver\<close>, with the id and the number of the attempt; the envelope addresses
  are given as \<open>asciiValue\<close> has made them. The optional access headers are left out.
\<close>

definition delivery_headers ::
  "pystr \<Rightarrow> pystr \<Rightarrow> bytes \<Rightarrow> nat \<Rightarrow> bytes \<Rightarrow> pystr \<Rightarrow> pystr \<Rightarrow> nat \<Rightarrow> http_headers"
where
  "delivery_headers version row_id secret timestamp body envelope_from envelope_to attempt =
     [(lit ''Content-Type'', lit ''message/rfc822''),
      (lit ''User-Agent'', lit ''mail-cloudflare-worker/'' @ version),
      (HEADER_ID, row_id),
      (HEADER_TIMESTAMP, dec_nat timestamp),
      (HEADER_SIGNATURE, sign_body secret timestamp body),
      (HEADER_ENVELOPE_FROM, envelope_from),
      (HEADER_ENVELOPE_TO, envelope_to),
      (lit ''X-Mail-Cloudflare-Attempt'', dec_nat attempt)]"

lemma delivery_headers_get:
  "headers_get (delivery_headers version row_id secret t body ef et n) HEADER_TIMESTAMP = Some (dec_nat t)"
  "headers_get (delivery_headers version row_id secret t body ef et n) HEADER_SIGNATURE = Some (sign_body secret t body)"
  "headers_get (delivery_headers version row_id secret t body ef et n) HEADER_ENVELOPE_FROM = Some ef"
  "headers_get (delivery_headers version row_id secret t body ef et n) HEADER_ENVELOPE_TO = Some et"
  by (simp_all add: delivery_headers_def HEADER_ID_def HEADER_TIMESTAMP_def HEADER_SIGNATURE_def
      HEADER_ENVELOPE_FROM_def HEADER_ENVELOPE_TO_def ascii_lower_def)

section \<open>The outcome of a request\<close>

lemma respond_status [simp]: "ans_status (respond s e v) = s"
  by (simp add: respond_def)

lemma inbound_unknown:
  "find_by_key E db key = [] \<Longrightarrow>
     inbound E process clock now db key headers body = (db, Inr (respond 404 (Some (lit ''unknown webhook key'')) []))"
  by (simp add: inbound_def)

definition request_signed :: "'db fm_env \<Rightarrow> 'db \<Rightarrow> int \<Rightarrow> nat \<Rightarrow> http_headers \<Rightarrow> bytes \<Rightarrow> bool py" where
  "request_signed E db clock i headers body =
     verify_signature (fm_interp E) (secret_of E db i) (headers_get headers HEADER_TIMESTAMP)
       (headers_get headers HEADER_SIGNATURE) (BodyBytes body) clock"

lemma inbound_signed:
  assumes "find_by_key E db key = i # r" and "request_signed E db clock i headers body = Inr True"
    and "process_inbound E process now db i (BodyBytes body) (headers_get headers HEADER_ENVELOPE_FROM)
          (headers_get headers HEADER_ENVELOPE_TO) = (db1, res)"
  shows "inbound E process clock now db key headers body =
    (case res of
       Inr thread_id \<Rightarrow> (db1, Inr (respond 200 None [(lit ''thread_id'', py_or thread_id (JBool False)),
           (lit ''id'', case headers_get headers HEADER_ID of None \<Rightarrow> JBool False | Some s \<Rightarrow> py_or (JStr s) (JBool False))]))
     | Inl e \<Rightarrow>
         if is_value_error e then (db, Inr (respond 422 (Some (error_text E e)) []))
         else if e = PgConcurrency then (db1, Inl e)
         else (db, Inr (respond 500 (Some (lit ''internal error'')) [])))"
  using assms by (simp add: inbound_def request_signed_def Let_def del: lit_simps split: sum.split)

lemma inbound_unsigned:
  assumes "find_by_key E db key = i # r" and "request_signed E db clock i headers body \<noteq> Inr True"
  shows "inbound E process clock now db key headers body =
    (db, case request_signed E db clock i headers body of
           Inl e \<Rightarrow> Inl e | Inr v \<Rightarrow> Inr (respond 401 (Some (lit ''invalid signature'')) []))"
  using assms by (auto simp: inbound_def request_signed_def Let_def simp del: lit_simps split: sum.splits)

section \<open>A request in the memory store\<close>

definition sample_process :: "memory processor" where
  "sample_process db i model message original strip_attachments = (db, Inr (JInt 5))"

definition sample_body :: bytes where "sample_body = map oct (lit ''Subject: x'')"

definition sample_env :: "memory fm_env" where "sample_env = memory_env (\<lambda>n. []) []"

definition sample_key :: bytes where "sample_key = map oct (lit ''0123456789abcdef'')"

definition sample_headers :: http_headers where
  "sample_headers = delivery_headers (lit ''1'') (lit ''id'') sample_key 1700000000 sample_body [] (lit ''a'') 1"

lemma sample_written: "\<exists>db1. fm_write sample_env (0, sample_store) [7] [(lit ''date'', JNull)] = Inr (0, db1)"
proof -
  obtain db1 where w: "o_write (memory_orm memory_default memory_key_unique) sample_store [7] [(lit ''date'', JNull)] = Inr db1"
    using single_write unfolding sample_store_def by blast
  have "fm_write sample_env (0, sample_store) [7] [(lit ''date'', JNull)] = Inr (0, db1)"
    using w by (simp add: fm_write_def sample_env_def F_TYPE_def lit_inject del: lit_simps)
  then show ?thesis ..
qed

lemma sample_processed:
  "\<exists>db1. process_inbound sample_env sample_process JNull sample_store 7 (BodyBytes sample_body) (Some []) (Some (lit ''a''))
     = (db1, Inr (JInt 5))"
proof -
  have "\<exists>out. prepare_message (BodyBytes sample_body) (Some []) (Some (lit ''a'')) = Inr out"
    by (simp add: sample_body_def prepare_message_def body_bytes_def check_envelope_def unquote_def envelope_forbidden_def
        strip_def strip_by_def py_space_def envelope_lines_def Let_def encode_py_def utf8_char_def CRLF_def)
  then obtain out where out: "prepare_message (BodyBytes sample_body) (Some []) (Some (lit ''a'')) = Inr out" ..
  obtain db1 where "fm_write sample_env (0, sample_store) [7] [(lit ''date'', JNull)] = Inr (0, db1)"
    using sample_written by blast
  with out show ?thesis
    by (simp add: process_inbound_def sample_process_def py_or_def del: lit_simps)
qed

lemma sample_found: "find_by_key sample_env sample_store (lit ''k'') = [7]"
  by (simp only: sample_env_def sample_find)

lemma sample_secret: "secret_of sample_env sample_store 7 = Some (lit ''0123456789abcdef'')"
  by (simp only: secret_of_def sample_env_def sample_get json.case)

lemma sample_secret_bytes: "lit ''0123456789abcdef'' \<noteq> []" "encode (lit ''0123456789abcdef'') = Some sample_key"
proof -
  have "ascii (lit ''0123456789abcdef'')" by simp
  from encode_ascii [OF this] show "encode (lit ''0123456789abcdef'') = Some sample_key" by (simp only: sample_key_def)
qed simp

lemma sample_timestamp: "length (dec_nat 1700000000) \<le> 4300" "\<bar>(1700000300 :: int) - int 1700000000\<bar> \<le> 300"
  by (simp_all add: dec_nat_numeral)

lemma sample_signed:
  "request_signed sample_env sample_store 1700000300 7 sample_headers sample_body = Inr True"
  unfolding request_signed_def sample_headers_def delivery_headers_get sample_secret
  by (rule verify_worker_signature [OF sample_secret_bytes sample_timestamp])

section \<open>Properties\<close>

text \<open>
  C5. The answer tells the Worker exactly what happened: 404 if and only if no confirmed server
  has the key, 401 if and only if the signature does not verify, 200 if and only if the
  message was processed, 422 if and only if processing raised \<open>ValueError\<close>, 500 on any other
  error; and whatever is not answered with 200 leaves the database as it was. Only a
  concurrency error, or an error of the check itself, is passed on.
\<close>

theorem inbound_status_exact:
  "case inbound E process clock now db key headers body of
     (db', Inl e) \<Rightarrow>
       \<exists>i r. find_by_key E db key = i # r
         \<and> (request_signed E db clock i headers body = Inl e \<and> db' = db \<or> e = PgConcurrency)
   | (db', Inr a) \<Rightarrow>
       (ans_status a = 404 \<and> db' = db \<and> find_by_key E db key = [])
       \<or> (\<exists>i r. find_by_key E db key = i # r \<and>
           (ans_status a = 401 \<and> db' = db \<and> request_signed E db clock i headers body = Inr False
            \<or> request_signed E db clock i headers body = Inr True \<and>
               (\<exists>db1 res. process_inbound E process now db i (BodyBytes body) (headers_get headers HEADER_ENVELOPE_FROM)
                   (headers_get headers HEADER_ENVELOPE_TO) = (db1, res) \<and>
                 (ans_status a = 200 \<and> db' = db1 \<and> (\<exists>t. res = Inr t)
                  \<or> ans_status a = 422 \<and> db' = db \<and> (\<exists>e. res = Inl e \<and> is_value_error e)
                  \<or> ans_status a = 500 \<and> db' = db \<and> (\<exists>e. res = Inl e \<and> is_value_error e = False)))))"
proof (cases "find_by_key E db key")
  case Nil
  then show ?thesis by (simp add: inbound_unknown)
next
  case (Cons i r)
  show ?thesis
  proof (cases "request_signed E db clock i headers body = Inr True")
    case True
    obtain db1 res where p: "process_inbound E process now db i (BodyBytes body) (headers_get headers HEADER_ENVELOPE_FROM)
        (headers_get headers HEADER_ENVELOPE_TO) = (db1, res)" by (metis surj_pair)
    show ?thesis
      unfolding inbound_signed [OF Cons True p] using Cons True p by (cases res) auto
  next
    case False
    then show ?thesis
      unfolding inbound_unsigned [OF Cons False] using Cons
      by (cases "request_signed E db clock i headers body") auto
  qed
qed

text \<open>
  C2. Nothing unsigned gets in: if the database changed or the answer is 200, then the key is
  that of a confirmed server and the digest in the signature header is the HMAC-SHA256, under
  that server's secret, of a timestamp no more than 300 seconds away and the body.
\<close>

theorem inbound_authentic:
  assumes "inbound E process clock now db key headers body = (db', res)"
    and "db' \<noteq> db \<or> (\<exists>a. res = Inr a \<and> ans_status a = 200)"
  shows "\<exists>i r sec ts sg issued digest k stamp.
    find_by_key E db key = i # r \<and> secret_of E db i = Some sec \<and> sec \<noteq> []
    \<and> headers_get headers HEADER_TIMESTAMP = Some ts \<and> headers_get headers HEADER_SIGNATURE = Some sg
    \<and> py_int (fm_interp E) (strip ts) = Some issued \<and> \<bar>clock - issued\<bar> \<le> 300
    \<and> signature_digest sg = Some digest \<and> encode sec = Some k \<and> encode (strip ts @ lit ''.'') = Some stamp
    \<and> lower (fm_interp E) digest = hmac_hex k (stamp @ body)"
proof (cases "find_by_key E db key")
  case Nil
  with assms show ?thesis by (auto simp: inbound_unknown)
next
  case (Cons i r)
  have "request_signed E db clock i headers body = Inr True"
  proof (rule ccontr)
    assume n: "request_signed E db clock i headers body \<noteq> Inr True"
    with assms show False
      unfolding inbound_unsigned [OF Cons n] by (auto split: sum.splits)
  qed
  with Cons show ?thesis
    unfolding request_signed_def verify_signature_True
    by (auto simp: body_bytes_def simp del: lit_simps)
qed

theorem inbound_authentic_witness:
  "\<exists>ts sg issued digest stamp.
     headers_get sample_headers HEADER_TIMESTAMP = Some ts \<and> headers_get sample_headers HEADER_SIGNATURE = Some sg
     \<and> py_int (fm_interp sample_env) (strip ts) = Some issued \<and> \<bar>1700000300 - issued\<bar> \<le> 300
     \<and> signature_digest sg = Some digest \<and> encode (strip ts @ lit ''.'') = Some stamp
     \<and> lower (fm_interp sample_env) digest = hmac_hex sample_key (stamp @ sample_body)"
proof -
  obtain db1 where p: "process_inbound sample_env sample_process JNull sample_store 7 (BodyBytes sample_body)
      (headers_get sample_headers HEADER_ENVELOPE_FROM) (headers_get sample_headers HEADER_ENVELOPE_TO) = (db1, Inr (JInt 5))"
    using sample_processed unfolding sample_headers_def delivery_headers_get by blast
  from inbound_signed [OF sample_found sample_signed p] obtain a where
    "inbound sample_env sample_process 1700000300 JNull sample_store (lit ''k'') sample_headers sample_body = (db1, Inr a)"
    "ans_status a = 200" by simp
  from inbound_authentic [OF this(1)] this(2) show ?thesis
    unfolding sample_found list.inject using sample_secret sample_secret_bytes(2) by auto
qed

text \<open>
  End to end: what a Worker with the server's key and secret posts is never refused as
  unknown or unsigned while the clocks are within 300 seconds; its verdict is \<open>Delivered\<close> when
  the message was processed, \<open>Rejected\<close> when it was refused for good (\<open>ValueError\<close>), and
  \<open>RetryLater\<close>, on an unchanged database, when anything else went wrong.
\<close>

theorem delivery_verdict:
  assumes "find_by_key E db key = [i]" and "secret_of E db i = Some sec" and "sec \<noteq> []" and "encode sec = Some k"
    and "length (dec_nat t) \<le> 4300" and "\<bar>clock - int t\<bar> \<le> 300"
    and "process_inbound E process now db i (BodyBytes body) (Some ef) (Some et) = (db1, res)"
  shows "case inbound E process clock now db key (delivery_headers version row_id k t body ef et n) body of
      (db', Inl e) \<Rightarrow> res = Inl PgConcurrency \<and> e = PgConcurrency
    | (db', Inr a) \<Rightarrow>
        (case res of
           Inr thread_id \<Rightarrow> classify_status (ans_status a) = Delivered \<and> db' = db1
         | Inl e \<Rightarrow> db' = db \<and> classify_status (ans_status a) = (if is_value_error e then Rejected else RetryLater))"
proof -
  let ?hs = "delivery_headers version row_id k t body ef et n"
  have signed: "request_signed E db clock i ?hs body = Inr True"
    unfolding request_signed_def delivery_headers_get assms(2)
    by (rule verify_worker_signature [OF assms(3-6)])
  have p: "process_inbound E process now db i (BodyBytes body) (headers_get ?hs HEADER_ENVELOPE_FROM)
      (headers_get ?hs HEADER_ENVELOPE_TO) = (db1, res)"
    unfolding delivery_headers_get by (rule assms(7))
  show ?thesis
    unfolding inbound_signed [OF assms(1) signed p]
    by (cases res) (auto simp: classify_status_def)
qed

theorem delivery_verdict_witness:
  "\<exists>db' a. inbound sample_env sample_process 1700000300 JNull sample_store (lit ''k'') sample_headers sample_body = (db', Inr a)
     \<and> classify_status (ans_status a) = Delivered"
proof -
  obtain db1 where p: "process_inbound sample_env sample_process JNull sample_store 7 (BodyBytes sample_body) (Some []) (Some (lit ''a''))
      = (db1, Inr (JInt 5))"
    using sample_processed by blast
  from delivery_verdict [OF sample_found sample_secret sample_secret_bytes sample_timestamp p, of "lit ''1''" "lit ''id''" 1]
  show ?thesis
    unfolding sample_headers_def [symmetric] by (auto split: prod.splits sum.splits)
qed

end
