(* ===== verification/Registry.thy ===== *)
theory Registry
  imports Fetchmail
begin

text \<open>
  What the webhook needs of \<open>fetchmail.server\<close>, abstractly: a map from webhook keys to the
  server that receives their mail. The look-up by key reads this map, confirming servers adds
  to it, archiving takes away from it and regenerating a secret leaves it alone; the database
  operations of theory Fetchmail implement these four.
\<close>

section \<open>The abstract registry\<close>

type_synonym registry = "pystr \<Rightarrow> nat option"

definition enroll :: "(pystr \<times> nat) list \<Rightarrow> registry \<Rightarrow> registry" where
  "enroll entries r = r ++ map_of entries"

definition retire :: "nat list \<Rightarrow> registry \<Rightarrow> registry" where
  "retire ids r k = (case r k of None \<Rightarrow> None | Some i \<Rightarrow> if i \<in> set ids then None else Some i)"

text \<open>The registry of a database: the confirmed, active Cloudflare server with the key.\<close>

definition registry_of :: "'db fm_env \<Rightarrow> 'db \<Rightarrow> registry" where
  "registry_of E db key =
     (if key = [] then None
      else List.find (matches (fm_orm E) db (key_domain key)) (o_ids (fm_orm E) db))"

text \<open>The entries of the servers a confirmation can add: Cloudflare, active, with a key.\<close>

definition confirmable :: "'db fm_env \<Rightarrow> 'db \<Rightarrow> nat list \<Rightarrow> (pystr \<times> nat) list" where
  "confirmable E db ids =
     map (\<lambda>i. (text_of (fm_get E db i F_KEY), i))
       (filter (\<lambda>i. i \<in> set (o_ids (fm_orm E) db) \<and> is_cloudflare E db i \<and> truthy (fm_get E db i F_ACTIVE)
                    \<and> text_of (fm_get E db i F_KEY) \<noteq> []) ids)"

section \<open>Reading the registry\<close>

lemma active_distinct [simp]:
  "F_ACTIVE \<noteq> F_TYPE" "F_ACTIVE \<noteq> F_KEY" "F_ACTIVE \<noteq> F_SECRET" "F_ACTIVE \<noteq> F_STATE"
  "F_TYPE \<noteq> F_ACTIVE" "F_KEY \<noteq> F_ACTIVE" "F_SECRET \<noteq> F_ACTIVE" "F_STATE \<noteq> F_ACTIVE"
  by (simp_all add: field_defs)

lemma matches_key:
  "matches (fm_orm E) db (key_domain key) i \<longleftrightarrow>
     i \<in> set (o_ids (fm_orm E) db) \<and> truthy (fm_get E db i F_ACTIVE) \<and> fm_get E db i F_KEY = JStr key
     \<and> is_cloudflare E db i \<and> fm_get E db i F_STATE = JStr (lit ''done'')"
  by (simp add: matches_def key_domain_def fm_get_def is_cloudflare_def F_ACTIVE_def del: lit_simps)

lemma text_of_key: "text_of v = k \<and> k \<noteq> [] \<longleftrightarrow> v = JStr k \<and> k \<noteq> []"
  by (cases v) auto

lemma key_unique_same:
  assumes "key_unique E db" and "fm_get E db i F_KEY = JStr k" "fm_get E db j F_KEY = JStr k" "k \<noteq> []"
    and "i \<in> set (o_ids (fm_orm E) db)" "j \<in> set (o_ids (fm_orm E) db)"
  shows "i = j"
proof -
  have "truthy (fm_get E db i F_KEY)" using assms(2,4) by simp
  with assms(1,2,3,5,6) show ?thesis unfolding key_unique_def by metis
qed

lemma registry_Some:
  assumes "key_unique E db"
  shows "registry_of E db k = Some i \<longleftrightarrow> k \<noteq> [] \<and> matches (fm_orm E) db (key_domain k) i"
proof -
  have "List.find (matches (fm_orm E) db (key_domain k)) (o_ids (fm_orm E) db) = Some i
      \<longleftrightarrow> matches (fm_orm E) db (key_domain k) i" if "k \<noteq> []"
  proof
    assume "List.find (matches (fm_orm E) db (key_domain k)) (o_ids (fm_orm E) db) = Some i"
    then show "matches (fm_orm E) db (key_domain k) i" by (auto simp: find_Some_iff)
  next
    assume m: "matches (fm_orm E) db (key_domain k) i"
    then have "i \<in> set (o_ids (fm_orm E) db)" by (simp add: matches_key)
    with m obtain j where j: "List.find (matches (fm_orm E) db (key_domain k)) (o_ids (fm_orm E) db) = Some j"
      by (cases "List.find (matches (fm_orm E) db (key_domain k)) (o_ids (fm_orm E) db)") (auto simp: find_None_iff)
    then have "matches (fm_orm E) db (key_domain k) j" by (auto simp: find_Some_iff)
    with m that key_unique_same [OF assms, of i k j] have "i = j" by (simp add: matches_key)
    with j show "List.find (matches (fm_orm E) db (key_domain k)) (o_ids (fm_orm E) db) = Some i" by simp
  qed
  then show ?thesis by (simp add: registry_of_def)
qed

lemma registry_eqI:
  assumes "key_unique E db" and "\<And>k i. r k = Some i \<longleftrightarrow> k \<noteq> [] \<and> matches (fm_orm E) db (key_domain k) i"
  shows "registry_of E db = r"
proof
  fix k
  show "registry_of E db k = r k"
  proof (cases "r k")
    case None
    with assms(2) [of k] registry_Some [OF assms(1), of k] show ?thesis
      by (cases "registry_of E db k") auto
  next
    case (Some i)
    with assms(2) [of k i] have "registry_of E db k = Some i" unfolding registry_Some [OF assms(1)] by simp
    with Some show ?thesis by simp
  qed
qed

lemma key_unique_cong:
  assumes "key_unique E db" "o_ids (fm_orm E) db' = o_ids (fm_orm E) db"
    and "\<And>i. fm_get E db' i F_KEY = fm_get E db i F_KEY"
  shows "key_unique E db'"
  using assms by (simp add: key_unique_def)

lemma confirmable_Some:
  assumes "key_unique E db"
  shows "map_of (confirmable E db ids) k = Some i \<longleftrightarrow>
     k \<noteq> [] \<and> i \<in> set ids \<and> i \<in> set (o_ids (fm_orm E) db) \<and> is_cloudflare E db i
     \<and> truthy (fm_get E db i F_ACTIVE) \<and> fm_get E db i F_KEY = JStr k" (is "_ \<longleftrightarrow> ?R i")
proof
  assume "map_of (confirmable E db ids) k = Some i"
  then have "(k, i) \<in> set (confirmable E db ids)" by (rule map_of_SomeD)
  then show "?R i" using text_of_key [of "fm_get E db i F_KEY" k] by (auto simp: confirmable_def)
next
  assume r: "?R i"
  then have "(k, i) \<in> set (confirmable E db ids)"
    unfolding confirmable_def set_map set_filter by (intro image_eqI [where x = i]) simp_all
  then obtain j where j: "map_of (confirmable E db ids) k = Some j"
    by (cases "map_of (confirmable E db ids) k") (force simp: map_of_eq_None_iff)+
  then have "(k, j) \<in> set (confirmable E db ids)" by (rule map_of_SomeD)
  then have "fm_get E db j F_KEY = JStr k" "j \<in> set (o_ids (fm_orm E) db)"
    using text_of_key [of "fm_get E db j F_KEY" k] by (auto simp: confirmable_def)
  with r key_unique_same [OF assms, of i k j] have "i = j" by simp
  with j show "map_of (confirmable E db ids) k = Some i" by simp
qed

section \<open>The operations implement the registry\<close>

context fetchmail_store begin

lemma lookup_refines:
  assumes "constraint db"
  shows "find_by_key E db key = (case registry_of E db key of None \<Rightarrow> [] | Some i \<Rightarrow> [i])"
proof (cases rule: find_by_key_cases [of db key])
  case 1
  note r = registry_Some [OF constraint_unique [OF assms], of key]
  have "registry_of E db key = None"
  proof (rule ccontr)
    assume "registry_of E db key \<noteq> None"
    with r 1(2) show False by auto
  qed
  with 1 show ?thesis by simp
next
  case (2 i)
  note f = find_by_key_one [OF 2]
  then have "registry_of E db key = Some i"
    unfolding registry_Some [OF constraint_unique [OF assms]] matches_key by simp
  with 2 show ?thesis by simp
qed

lemma regenerate_refines:
  assumes "constraint db" and "regenerate_secret E (n, db) ids = Inr (n', db')"
  shows "registry_of E db' = registry_of E db"
proof -
  note u = constraint_unique [OF assms(1)]
  have ids: "o_ids (fm_orm E) db' = o_ids (fm_orm E) db"
    using regenerate_effect [OF assms(2)] by simp
  have get: "fm_get E db' i f = fm_get E db i f" if "f \<in> {F_TYPE, F_KEY, F_STATE, F_ACTIVE}" for i f
    using regenerate_effect [OF assms(2), of f i] that by (elim insertE) simp_all
  show ?thesis
    by (rule registry_eqI [OF key_unique_cong [OF u ids]])
      (simp_all add: get registry_Some [OF u] matches_key is_cloudflare_def ids del: lit_simps)
qed

lemma archive_refines:
  assumes "constraint db" and w: "fm_write E (n, db) ids [(F_ACTIVE, JBool False)] = Inr (n', db')"
  shows "registry_of E db' = retire ids (registry_of E db)"
proof -
  note u = constraint_unique [OF assms(1)]
  obtain db1 where o: "o_write (fm_orm E) db ids [(F_ACTIVE, JBool False)] = Inr db'"
    using w by (auto simp: fm_write_def bindR_Inr_iff)
  have ids: "o_ids (fm_orm E) db' = o_ids (fm_orm E) db" by (rule write_ids [OF o])
  have get: "stored f \<Longrightarrow> fm_get E db' i f = (if i \<in> set ids \<and> f = F_ACTIVE then JBool False else fm_get E db i f)" for i f
    using core_write_get [OF o, of f i] by (simp add: written_def)
  have key: "fm_get E db' i F_KEY = fm_get E db i F_KEY" for i by (simp add: get)
  show ?thesis
  proof (rule registry_eqI [OF key_unique_cong [OF u ids key]])
    fix k i
    have "retire ids (registry_of E db) k = Some i \<longleftrightarrow> registry_of E db k = Some i \<and> i \<notin> set ids"
      by (auto simp: retire_def split: option.splits if_splits)
    then show "retire ids (registry_of E db) k = Some i
        \<longleftrightarrow> k \<noteq> [] \<and> matches (fm_orm E) db' (key_domain k) i"
      by (auto simp: registry_Some [OF u] matches_key is_cloudflare_def ids get simp del: lit_simps)
  qed
qed

lemma confirm_state:
  assumes "button_confirm_login E (n, db) ids = Inr (n', db')" and "is_cloudflare E db i"
  shows "fm_get E db' i F_STATE = (if i \<in> set ids then JStr (lit ''done'') else fm_get E db i F_STATE)"
proof -
  let ?cf = "filter (is_cloudflare E db) ids" and ?rest = "filter (\<lambda>i. \<not> is_cloudflare E db i) ids"
  obtain st1 where c: "confirm_servers E (n, db) ?cf = Inr st1" and k: "fm_core_confirm E (snd st1) ?rest = Inr db'"
    using assms(1) by (auto simp: button_confirm_login_def bindR_Inr_iff)
  have "fm_get E db' i F_STATE = fm_get E (snd st1) i F_STATE"
    using confirm_get [OF k, of F_STATE i] assms(2) by simp
  with confirm_servers_effect [OF c, of F_STATE i] assms(2) show ?thesis by auto
qed

lemma confirm_refines:
  assumes "constraint db" and c: "button_confirm_login E (n, db) ids = Inr (n', db')"
  shows "registry_of E db' = enroll (confirmable E db ids) (registry_of E db)"
proof -
  note u = constraint_unique [OF assms(1)]
  have ids: "o_ids (fm_orm E) db' = o_ids (fm_orm E) db"
    using confirm_effect(1) [OF c] by simp
  have get: "stored f \<Longrightarrow> f \<noteq> F_STATE \<Longrightarrow> fm_get E db' i f = fm_get E db i f" for i f
    using confirm_effect(2) [OF c, of f i] by simp
  have key: "fm_get E db' i F_KEY = fm_get E db i F_KEY" for i by (simp add: get)
  have cf: "is_cloudflare E db' i = is_cloudflare E db i" for i by (simp add: is_cloudflare_def get)
  show ?thesis
  proof (rule registry_eqI [OF key_unique_cong [OF u ids key]])
    fix k i
    let ?C = "map_of (confirmable E db ids) k" and ?r = "registry_of E db k"
    have same: "?C = Some j \<Longrightarrow> ?r = Some i \<Longrightarrow> j = i" for j
      unfolding registry_Some [OF u] confirmable_Some [OF u] matches_key
      using key_unique_same [OF u] by blast
    have "enroll (confirmable E db ids) (registry_of E db) k = Some i \<longleftrightarrow> ?C = Some i \<or> ?r = Some i"
      using same by (cases ?C) (auto simp: enroll_def map_add_def)
    then show "enroll (confirmable E db ids) (registry_of E db) k = Some i
        \<longleftrightarrow> k \<noteq> [] \<and> matches (fm_orm E) db' (key_domain k) i"
      unfolding registry_Some [OF u] confirmable_Some [OF u] matches_key ids cf
      using confirm_state [OF c, of i] by (auto simp: get simp del: lit_simps)
  qed
qed

end

section \<open>Properties\<close>

text \<open>
  C12. The server records implement a registry of webhook keys: looking a key up reads the
  registry, confirming servers enrols exactly the active Cloudflare servers among them under
  their keys, archiving servers retires their entries, and regenerating secrets leaves the
  registry as it was.
\<close>

theorem servers_refine_registry:
  assumes "fetchmail_store E stored constraint" and "constraint db"
  shows "find_by_key E db key = (case registry_of E db key of None \<Rightarrow> [] | Some i \<Rightarrow> [i])
    \<and> (case button_confirm_login E (n, db) ids of Inl e \<Rightarrow> True
       | Inr (n', db') \<Rightarrow> registry_of E db' = enroll (confirmable E db ids) (registry_of E db))
    \<and> (case fm_write E (n, db) ids [(F_ACTIVE, JBool False)] of Inl e \<Rightarrow> True
       | Inr (n', db') \<Rightarrow> registry_of E db' = retire ids (registry_of E db))
    \<and> (case regenerate_secret E (n, db) ids of Inl e \<Rightarrow> True
       | Inr (n', db') \<Rightarrow> registry_of E db' = registry_of E db)"
  using fetchmail_store.lookup_refines [OF assms] fetchmail_store.confirm_refines [OF assms]
    fetchmail_store.archive_refines [OF assms] fetchmail_store.regenerate_refines [OF assms]
  by (auto split: sum.split)

theorem servers_refine_registry_witness:
  "registry_of (memory_env (\<lambda>n. []) []) sample_store (lit ''k'') = Some 7
   \<and> (\<exists>n' db'. fm_write (memory_env (\<lambda>n. []) []) (0, sample_store) [7] [(F_ACTIVE, JBool False)] = Inr (n', db')
        \<and> registry_of (memory_env (\<lambda>n. []) []) db' (lit ''k'') = None)"
proof -
  let ?E = "memory_env (\<lambda>n. []) []"
  have c: "memory_key_unique sample_store"
    by (simp add: memory_key_unique_def sample_store_def mem_ids_def del: lit_simps)
  note R = servers_refine_registry [OF memory_store.fetchmail_store_axioms [of "\<lambda>n. []" "[]"] c]
  have one: "registry_of ?E sample_store (lit ''k'') = Some 7"
    using R [where key = "lit ''k''", THEN conjunct1] unfolding sample_find by (auto split: option.splits)
  obtain db' where "o_write (memory_orm memory_default memory_key_unique) sample_store [7] [(F_ACTIVE, JBool False)] = Inr db'"
    using single_write unfolding sample_store_def by blast
  then have w: "fm_write ?E (0, sample_store) [7] [(F_ACTIVE, JBool False)] = Inr (0, db')"
    by (simp add: fm_write_def)
  have "registry_of ?E db' = retire [7] (registry_of ?E sample_store)"
    using R [where n = 0 and ids = "[7]", THEN conjunct2, THEN conjunct2, THEN conjunct1] unfolding w by simp
  with one w show ?thesis by (auto simp: retire_def)
qed

end
