(* ===== verification/Webhook.thy ===== *)
theory Webhook
  imports Inbound Registry
begin

text \<open>
  The way from the URL in the form to the server: the route of \<open>controllers/main.py\<close> as Odoo's
  dispatcher reads it, the handler behind it, and the URL of \<open>models/fetchmail_server.py\<close>.
\<close>

section \<open>The route\<close>

text \<open>
  The arguments of the decorator: a path with one parameter, and how the dispatcher treats a
  request for it. The converter \<open>string\<close> takes a non-empty text without a slash.
\<close>

record route_decl =
  rt_path :: pystr
  rt_type :: pystr
  rt_auth :: pystr
  rt_methods :: "pystr list"
  rt_csrf :: bool
  rt_readonly :: bool
  rt_save_session :: bool

definition INBOUND_ROUTE :: route_decl where
  "INBOUND_ROUTE = \<lparr>rt_path = INBOUND_PATH @ lit ''/<string:key>'', rt_type = lit ''http'', rt_auth = lit ''none'',
     rt_methods = [lit ''POST''], rt_csrf = False, rt_readonly = False, rt_save_session = False\<rparr>"

text \<open>The parameter of a path under such a route.\<close>

definition string_parameter :: "pystr \<Rightarrow> pystr \<Rightarrow> pystr option" where
  "string_parameter pattern path =
     (let n = length (takeWhile (\<lambda>c. c \<noteq> 60) pattern); key = drop n path in
      if take n path = take n pattern \<and> key \<noteq> [] \<and> 47 \<notin> set key then Some key else None)"

definition route_key :: "pystr \<Rightarrow> pystr \<Rightarrow> pystr option" where
  "route_key verb path =
     (if verb \<in> set (rt_methods INBOUND_ROUTE) then string_parameter (rt_path INBOUND_ROUTE) path else None)"

text \<open>A request for the route; \<open>None\<close> is one that is not the handler's.\<close>

definition webhook ::
  "'db fm_env \<Rightarrow> 'db processor \<Rightarrow> int \<Rightarrow> json \<Rightarrow> 'db \<Rightarrow> pystr \<Rightarrow> pystr \<Rightarrow> http_headers \<Rightarrow> bytes
     \<Rightarrow> ('db \<times> answer py) option"
where
  "webhook E process clock now db verb path headers body =
     map_option (\<lambda>key. inbound E process clock now db key headers body) (route_key verb path)"

section \<open>Its keys\<close>

lemma string_parameter_key:
  assumes "60 \<notin> set p"
  shows "string_parameter (p @ 60 # r) path = (if take (length p) path = p \<and> drop (length p) path \<noteq> [] \<and> 47 \<notin> set (drop (length p) path)
    then Some (drop (length p) path) else None)"
proof -
  have "takeWhile (\<lambda>c. c \<noteq> 60) (p @ 60 # r) = p"
    using assms by (subst takeWhile_append2) auto
  then show ?thesis by (simp add: string_parameter_def Let_def)
qed

lemma route_key_Some:
  "route_key verb path = Some key \<longleftrightarrow>
     verb = lit ''POST'' \<and> path = INBOUND_PATH @ lit ''/'' @ key \<and> key \<noteq> [] \<and> 47 \<notin> set key"
proof -
  let ?p = "INBOUND_PATH @ lit ''/''"
  have "60 \<notin> set ?p" by (simp add: INBOUND_PATH_def)
  moreover have "rt_path INBOUND_ROUTE = ?p @ 60 # lit ''string:key>''" by (simp add: INBOUND_ROUTE_def)
  ultimately have "string_parameter (rt_path INBOUND_ROUTE) path = Some key \<longleftrightarrow>
      take (length ?p) path = ?p \<and> key = drop (length ?p) path \<and> key \<noteq> [] \<and> 47 \<notin> set key"
    using string_parameter_key [of ?p "lit ''string:key>''" path] by (auto simp del: lit_simps)
  also have "\<dots> \<longleftrightarrow> path = ?p @ key \<and> key \<noteq> [] \<and> 47 \<notin> set key"
    by (metis append_eq_conv_conj append_take_drop_id)
  finally show ?thesis by (auto simp: route_key_def INBOUND_ROUTE_def simp del: lit_simps)
qed

lemma rstrip_last: "rstrip_by p s = [] \<or> \<not> p (last (rstrip_by p s))"
  using hd_dropWhile [of p "rev s"] by (auto simp: rstrip_by_def last_rev)

lemma url_safe_no_slash: "list_all url_safe key \<Longrightarrow> 47 \<notin> set key"
  by (auto simp: list_all_iff url_safe_def)

section \<open>Property\<close>



end
