(* ===== verification/Rfc822.thy ===== *)
theory Rfc822
  imports Envelope
begin

text \<open>
  The Worker's \<open>lib/rfc822.ts\<close>: the envelope headers it writes before a message, the check that
  a value fits a header line, and the \<open>Message-ID\<close> it keeps. A JavaScript string is the list of
  its UTF-16 code units.
\<close>

section \<open>JavaScript strings\<close>

type_synonym jsstr = "nat list"

definition high_surrogate :: "nat \<Rightarrow> bool" where
  "high_surrogate u \<longleftrightarrow> 0xD800 \<le> u \<and> u < 0xDC00"

definition low_surrogate :: "nat \<Rightarrow> bool" where
  "low_surrogate u \<longleftrightarrow> 0xDC00 \<le> u \<and> u < 0xE000"

text \<open>\<open>for (const ch of value)\<close>: a pair is one character, a lone half is itself.\<close>

fun js_points :: "jsstr \<Rightarrow> nat list" where
  "js_points (u # v # us) =
     (if high_surrogate u \<and> low_surrogate v
      then (0x10000 + (u - 0xD800) * 1024 + (v - 0xDC00)) # js_points us
      else u # js_points (v # us))"
| "js_points us = us"

text \<open>\<open>new TextEncoder().encode(s)\<close>: UTF-8, a lone half becomes U+FFFD.\<close>

definition text_encode :: "jsstr \<Rightarrow> bytes" where
  "text_encode s =
     concat (map (\<lambda>c. case utf8_char c of Some b \<Rightarrow> b | None \<Rightarrow> [0xEF, 0xBF, 0xBD]) (js_points s))"

text \<open>The characters \<open>trim()\<close> removes.\<close>

definition js_space :: "nat \<Rightarrow> bool" where
  "js_space c \<longleftrightarrow>
     (9 \<le> c \<and> c \<le> 13) \<or> c = 32 \<or> c = 0xA0 \<or> c = 0x1680 \<or> (0x2000 \<le> c \<and> c \<le> 0x200A)
     \<or> c = 0x2028 \<or> c = 0x2029 \<or> c = 0x202F \<or> c = 0x205F \<or> c = 0x3000 \<or> c = 0xFEFF"

definition js_trim :: "jsstr \<Rightarrow> jsstr" where
  "js_trim s = strip_by js_space s"

text \<open>A digit of a decimal number: \<open>\d\<close> of a regular expression.\<close>

definition js_digit :: "nat \<Rightarrow> bool" where "js_digit c \<longleftrightarrow> 48 \<le> c \<and> c \<le> 57"

section \<open>lib/rfc822.ts\<close>

definition MAX_LINE_OCTETS :: nat where "MAX_LINE_OCTETS = 998"

datatype envelope_error = ControlCharacter string | LineTooLong string

definition assert_header_safe :: "string \<Rightarrow> jsstr \<Rightarrow> (envelope_error, unit) res" where
  "assert_header_safe name v =
     (if list_ex (\<lambda>c. c < 0x20 \<or> c = 0x7F) (js_points v) then Inl (ControlCharacter name)
      else if MAX_LINE_OCTETS < length (text_encode (lit name @ lit '': '' @ v)) then Inl (LineTooLong name)
      else Inr ())"

definition envelope_headers :: "jsstr \<Rightarrow> jsstr \<Rightarrow> (string \<times> jsstr) list" where
  "envelope_headers from to =
     [(''Delivered-To'', to),
      (''Return-Path'', if from = [] then lit ''<>'' else lit ''<'' @ from @ lit ''>'')]"

text \<open>Every pair is checked before its line is added; the block is encoded once, at the end.\<close>

fun header_block :: "(string \<times> jsstr) list \<Rightarrow> (envelope_error, jsstr) res" where
  "header_block [] = Inr []"
| "header_block ((name, v) # hs) =
     bindR (assert_header_safe name v) (\<lambda>_.
     bindR (header_block hs) (\<lambda>block. Inr (lit name @ lit '': '' @ v @ [13, 10] @ block)))"

definition prepend_headers :: "bytes \<Rightarrow> (string \<times> jsstr) list \<Rightarrow> (envelope_error, bytes) res" where
  "prepend_headers raw hs = bindR (header_block hs) (\<lambda>block. Inr (text_encode block @ raw))"

definition MAX_MESSAGE_ID :: nat where "MAX_MESSAGE_ID = 256"

definition message_id_of :: "jsstr option \<Rightarrow> jsstr option" where
  "message_id_of header =
     (case header of
        None \<Rightarrow> None
      | Some h \<Rightarrow>
          let i = take MAX_MESSAGE_ID (filter (\<lambda>c. 0x20 \<le> c \<and> c < 0x7F) (js_points (js_trim h))) in
          if i = [] then None else Some i)"

section \<open>Strings without lone halves\<close>

lemma js_points_scalar: "list_all scalar s \<Longrightarrow> js_points (utf16 s) = s"
proof (induction s)
  case (Cons c s)
  show ?case
  proof (cases "c < 0x10000")
    case True
    then have h: "\<not> high_surrogate c" using Cons.prems by (auto simp: scalar_def high_surrogate_def)
    have "js_points (c # us) = c # js_points us" for us
      by (cases us) (simp_all add: h)
    with True Cons show ?thesis by simp
  next
    case False
    have c: "c < 0x110000" using Cons.prems False by (auto simp: scalar_def)
    let ?d = "c - 0x10000"
    have d: "?d div 1024 < 1024" using c by (simp add: less_mult_imp_div_less)
    have "high_surrogate (0xD800 + ?d div 1024)" "low_surrogate (0xDC00 + ?d mod 1024)"
      using d by (simp_all add: high_surrogate_def low_surrogate_def)
    moreover have "0x10000 + ?d div 1024 * 1024 + ?d mod 1024 = c" using False by simp
    ultimately show ?thesis using False Cons by simp
  qed
qed simp

lemma text_encode_scalar:
  assumes "list_all scalar s"
  shows "encode s = Some (text_encode (utf16 s))"
proof -
  have "encode s = Some (concat (map (\<lambda>c. case utf8_char c of Some b \<Rightarrow> b | None \<Rightarrow> [0xEF, 0xBF, 0xBD]) s))"
    using assms by (induction s) (auto simp: utf8_char_scalar split: option.splits)
  then show ?thesis by (simp add: text_encode_def js_points_scalar assms)
qed

lemma utf16_append [simp]: "utf16 (s @ t) = utf16 s @ utf16 t"
  by (induction s) simp_all

lemma utf16_ascii: "ascii s \<Longrightarrow> utf16 s = s"
  by (induction s) simp_all

lemma utf16_Nil [simp]: "utf16 s = [] \<longleftrightarrow> s = []"
  by (cases s) simp_all

lemma list_all_scalar_ascii: "ascii s \<Longrightarrow> list_all scalar s"
  by (induction s) (auto simp: scalar_def)

section \<open>The stored message\<close>

text \<open>Fields before a message are fields of its header, also when the message has no header block.\<close>

lemma with_fields_not_empty:
  assumes "envelope_field h"
  shows "\<not> starts_empty (h @ r)"
proof -
  obtain n t where "h = n @ 0x3A # t" "n \<noteq> []" "list_all name_byte n"
    using field_shape [OF assms] by metis
  with not_starts_empty_field [of n "0x3A # t" r] show ?thesis by simp
qed

lemma names_before_empty:
  assumes "n \<noteq> []" and "list_all name_byte n" and "no_newline t" and "starts_empty b"
  shows "ascii_name n \<in> existing_header_names ((n @ 0x3A # t) @ 13 # 10 # b)"
proof -
  have l: "no_newline (n @ 0x3A # t)"
    using assms(2,3) by (auto simp: no_newline_def list_all_iff name_byte_def)
  have "header_head (13 # 10 # b) = []"
    using assms(4) by (simp add: block_end_crlf del: block_end.simps)
  then have "header_head ((n @ 0x3A # t) @ 13 # 10 # b) = n @ 0x3A # t"
    by (simp only: header_head_line [OF l] append_Nil2)
  moreover have "lines_of x = [x]" if "10 \<notin> set x" for x using that by (induction x) simp_all
  moreover have "10 \<notin> set (n @ 0x3A # t)" using l by (simp add: no_newline_def)
  ultimately show ?thesis
    using line_name_field [OF assms(1,2), of t] by (simp add: existing_header_names_def List.map_filter_simps)
qed

lemma field_names_present:
  "list_all envelope_field hs \<Longrightarrow> field_name ` set hs \<subseteq> existing_header_names (with_fields hs body)"
proof (induction hs)
  case (Cons h hs)
  obtain n t where nt: "h = n @ 0x3A # t" "n \<noteq> []" "list_all name_byte n" "no_newline t" "field_name h = ascii_name n"
    using field_shape Cons.prems by (metis list.pred_inject(2))
  show ?case
  proof (cases "starts_empty (with_fields hs body)")
    case True
    then have "hs = []"
      using with_fields_not_empty Cons.prems by (cases hs) auto
    with True names_before_empty [OF nt(2-4)] nt(1,5) show ?thesis by simp
  next
    case False
    from names_prepend [OF nt(2-4) False] Cons nt(1,5) show ?thesis by auto
  qed
qed simp

lemma envelope_roundtrip: "list_all scalar s \<Longrightarrow> ascii_value (utf16 s) = Some v \<Longrightarrow> unquote v = s"
  using ascii_value_bmp [of s] unquote_ascii_value [of "utf16 s" v] utf16_bmp [of s] by simp

lemma assert_header_safe_Inr:
  "assert_header_safe name v = Inr u \<Longrightarrow> list_all (\<lambda>c. \<not> envelope_forbidden c) (js_points v)"
  by (auto simp: assert_header_safe_def envelope_forbidden_def list_ex_iff list_all_iff split: if_splits)

lemma envelope_block:
  assumes "prepend_headers raw (envelope_headers from to) = Inr stored"
  shows "stored = text_encode ((lit ''Delivered-To'' @ lit '': '' @ to) @ CRLF
      @ (lit ''Return-Path'' @ lit '': '' @ lit ''<'' @ from @ lit ''>'') @ CRLF) @ raw
    \<and> list_all (\<lambda>c. \<not> envelope_forbidden c) (js_points to)
    \<and> list_all (\<lambda>c. \<not> envelope_forbidden c) (js_points (lit ''<'' @ from @ lit ''>''))"
  using assms
  by (auto simp: prepend_headers_def envelope_headers_def bindR_Inr_iff CRLF_def dest: assert_header_safe_Inr
      split: if_splits)

lemma stored_with_fields:
  assumes "list_all scalar f" and "list_all scalar t"
    and "prepend_headers raw (envelope_headers (utf16 f) (utf16 t)) = Inr stored"
  obtains h1 h2 where "stored = with_fields [h1, h2] raw"
    "encode (lit ''Delivered-To'' @ lit '': '' @ t) = Some h1"
    "encode (lit ''Return-Path'' @ lit '': '' @ lit ''<'' @ f @ lit ''>'') = Some h2"
    "list_all envelope_field [h1, h2]"
    "list_all (\<lambda>c. \<not> envelope_forbidden c) f" "list_all (\<lambda>c. \<not> envelope_forbidden c) t"
proof -
  let ?l1 = "lit ''Delivered-To'' @ lit '': '' @ t"
  let ?l2 = "lit ''Return-Path'' @ lit '': '' @ lit ''<'' @ f @ lit ''>''"
  let ?block = "?l1 @ CRLF @ ?l2 @ CRLF"
  have sc: "list_all scalar ?block"
    using assms(1,2) by (simp add: CRLF_def scalar_def)
  have block: "utf16 ?block = (lit ''Delivered-To'' @ lit '': '' @ utf16 t) @ CRLF
      @ (lit ''Return-Path'' @ lit '': '' @ lit ''<'' @ utf16 f @ lit ''>'') @ CRLF"
    by (simp add: CRLF_def)
  have l2: "utf16 (lit ''<'' @ f @ lit ''>'') = lit ''<'' @ utf16 f @ lit ''>''" by simp
  have scf: "list_all scalar (lit ''<'' @ f @ lit ''>'')"
    using assms(1) by (simp add: scalar_def)
  from envelope_block [OF assms(3)]
  have st: "stored = text_encode (utf16 ?block) @ raw"
    and okt: "list_all (\<lambda>c. \<not> envelope_forbidden c) t"
    and okf': "list_all (\<lambda>c. \<not> envelope_forbidden c) (lit ''<'' @ f @ lit ''>'')"
    unfolding block l2 [symmetric] js_points_scalar [OF assms(2)] js_points_scalar [OF scf] by blast+
  from okf' have okf: "list_all (\<lambda>c. \<not> envelope_forbidden c) f" by simp
  have "encode ?block = Some (text_encode (utf16 ?block))" by (rule text_encode_scalar [OF sc])
  then obtain h1 h2 where h: "encode ?l1 = Some h1" "encode ?l2 = Some h2"
    and te: "text_encode (utf16 ?block) = h1 @ [13, 10] @ h2 @ [13, 10]"
    unfolding encode_append_Some encode_CRLF by (metis append_assoc option.inject)
  have "envelope_field h1" by (rule encode_envelope_field [OF h(1) _ okt]) simp
  moreover have "envelope_field h2" by (rule encode_envelope_field [OF h(2) _ okf']) simp
  ultimately show thesis using that [OF _ h _ okf okt] st te by simp
qed

section \<open>Property\<close>

text \<open>
  C17. One envelope, two writers: what the Worker stores for a message passes the module's
  \<open>_cloudflare_prepare_message\<close> unchanged, with whatever addresses the request carries that pass
  its check, also when the message has no header block. And where the message has neither field
  and the addresses are not blank at their ends, the module would have written the same octets.
\<close>

theorem stored_message_kept:
  assumes "list_all scalar from" and "list_all scalar to"
    and "prepend_headers raw (envelope_headers (utf16 from) (utf16 to)) = Inr stored"
  shows "(check_envelope ''envelope-from'' ef = Inr f \<and> check_envelope ''envelope-to'' et = Inr t
           \<longrightarrow> prepare_message (BodyBytes stored) ef et = Inr stored)
    \<and> (ascii_value (utf16 from) = Some vf \<and> ascii_value (utf16 to) = Some vt
         \<and> strip from = from \<and> strip to = to \<and> to \<noteq> []
         \<and> delivered_to \<notin> existing_header_names raw \<and> return_path \<notin> existing_header_names raw
           \<longrightarrow> prepare_message (BodyBytes raw) (Some vf) (Some vt) = Inr stored)"
proof -
  obtain h1 h2 where st: "stored = with_fields [h1, h2] raw"
    and h1: "encode (lit ''Delivered-To'' @ lit '': '' @ to) = Some h1"
    and h2: "encode (lit ''Return-Path'' @ lit '': '' @ lit ''<'' @ from @ lit ''>'') = Some h2"
    and fields: "list_all envelope_field [h1, h2]"
    and ok: "list_all (\<lambda>c. \<not> envelope_forbidden c) from" "list_all (\<lambda>c. \<not> envelope_forbidden c) to"
    by (rule stored_with_fields [OF assms])
  have "field_name h1 = delivered_to" "field_name h2 = return_path"
    using encode_field [OF h1 lit_ascii_names(1)] encode_field [OF h2 lit_ascii_names(2)] field_names by auto
  with field_names_present [OF fields, of raw]
  have "delivered_to \<in> existing_header_names stored" "return_path \<in> existing_header_names stored"
    by (simp_all add: st del: with_fields_simps)
  then have nil: "envelope_lines (existing_header_names stored) u v = []" for u v
    by (simp add: envelope_lines_def split: option.split)
  have kept: "prepare_message (BodyBytes stored) ef et = Inr stored"
    if "check_envelope ''envelope-from'' ef = Inr f" "check_envelope ''envelope-to'' et = Inr t"
    using that by (simp add: prepare_message_def body_bytes_def nil)
  have same: "prepare_message (BodyBytes raw) (Some vf) (Some vt) = Inr stored"
    if v: "ascii_value (utf16 from) = Some vf" "ascii_value (utf16 to) = Some vt" "strip from = from" "strip to = to"
      "to \<noteq> []" "delivered_to \<notin> existing_header_names raw" "return_path \<notin> existing_header_names raw"
  proof -
    have u: "unquote vf = from" "unquote vt = to"
      using envelope_roundtrip assms(1,2) v(1,2) by blast+
    have "check_envelope ''envelope-from'' (Some vf) = Inr (Some from)" "check_envelope ''envelope-to'' (Some vt) = Inr (Some to)"
      using ok by (simp_all add: check_envelope_def u v list_ex_iff list_all_iff del: lit_simps)
    moreover have "envelope_lines (existing_header_names raw) (Some from) (Some to)
        = [lit ''Delivered-To'' @ lit '': '' @ to, lit ''Return-Path'' @ lit '': '' @ lit ''<'' @ from @ lit ''>'']"
      using v(5-7) by (simp add: envelope_lines_def)
    moreover have "encode ((lit ''Delivered-To'' @ lit '': '' @ to) @ CRLF
        @ (lit ''Return-Path'' @ lit '': '' @ lit ''<'' @ from @ lit ''>'') @ CRLF) = Some (h1 @ [13, 10] @ h2 @ [13, 10])"
      by (simp only: encode_append_Some encode_CRLF h1 h2) blast
    ultimately show ?thesis
      by (simp add: prepare_message_def body_bytes_def encode_py_def st del: lit_simps)
  qed
  from kept same show ?thesis by blast
qed

theorem stored_message_kept_witness:
  "\<exists>stored. prepend_headers [] (envelope_headers (lit ''a'') (lit ''b'')) = Inr stored
     \<and> prepare_message (BodyBytes stored) (Some (lit ''a'')) (Some (lit ''b'')) = Inr stored
     \<and> prepare_message (BodyBytes []) (Some (lit ''a'')) (Some (lit ''b'')) = Inr stored"
proof -
  have u: "utf16 (lit ''a'') = lit ''a''" "utf16 (lit ''b'') = lit ''b''" by simp_all
  have sc: "list_all scalar (lit ''a'')" "list_all scalar (lit ''b'')" by (simp_all add: scalar_def)
  have "\<exists>stored. prepend_headers [] (envelope_headers (lit ''a'') (lit ''b'')) = Inr stored"
    by (simp add: prepend_headers_def envelope_headers_def assert_header_safe_def MAX_LINE_OCTETS_def
        high_surrogate_def text_encode_def utf8_char_low)
  then obtain stored where st: "prepend_headers [] (envelope_headers (lit ''a'') (lit ''b'')) = Inr stored" ..
  then have st': "prepend_headers [] (envelope_headers (utf16 (lit ''a'')) (utf16 (lit ''b''))) = Inr stored"
    by (simp only: u)
  have c: "check_envelope ''envelope-from'' (Some (lit ''a'')) = Inr (Some (lit ''a''))"
    "check_envelope ''envelope-to'' (Some (lit ''b'')) = Inr (Some (lit ''b''))"
    and v: "ascii_value (utf16 (lit ''a'')) = Some (lit ''a'')" "ascii_value (utf16 (lit ''b'')) = Some (lit ''b'')"
      "strip (lit ''a'') = lit ''a''" "strip (lit ''b'') = lit ''b''" "lit ''b'' \<noteq> []"
    by (simp_all add: check_envelope_def unquote_def envelope_forbidden_def strip_def strip_by_def py_space_def
        encode_unit_def ascii_safe_def)
  have "delivered_to \<notin> existing_header_names []" "return_path \<notin> existing_header_names []"
    by (simp_all add: existing_header_names_def line_name_def List.map_filter_simps)
  then have "prepare_message (BodyBytes []) (Some (lit ''a'')) (Some (lit ''b'')) = Inr stored"
    by (intro stored_message_kept [OF sc st', THEN conjunct2, rule_format] conjI v)
  moreover have "prepare_message (BodyBytes stored) (Some (lit ''a'')) (Some (lit ''b'')) = Inr stored"
    by (rule stored_message_kept [OF sc st', THEN conjunct1, THEN mp, OF conjI [OF c]])
  ultimately have "prepend_headers [] (envelope_headers (lit ''a'') (lit ''b'')) = Inr stored
     \<and> prepare_message (BodyBytes stored) (Some (lit ''a'')) (Some (lit ''b'')) = Inr stored
     \<and> prepare_message (BodyBytes []) (Some (lit ''a'')) (Some (lit ''b'')) = Inr stored"
    using st by (intro conjI)
  then show ?thesis ..
qed

end
