(* ===== verification/JsJson.thy ===== *)
theory JsJson
  imports Rfc822
begin

text \<open>
  \<open>JSON.parse\<close>, as the Worker reads the answer of the webhook with it, on UTF-16 code units; and the
  proof that it reads back what Python's \<open>json.dumps\<close> writes. The parser carries fuel; twice the
  length of the text and one more is always enough.
\<close>

section \<open>The grammar\<close>

text \<open>A number is kept as it is written: the Worker only passes it on. An object keeps its members in order.\<close>

datatype js_value =
    JsNull
  | JsBool bool
  | JsNumber jsstr
  | JsString jsstr
  | JsArray "js_value list"
  | JsObject "(jsstr \<times> js_value) list"

definition json_ws :: "nat \<Rightarrow> bool" where
  "json_ws c \<longleftrightarrow> c = 9 \<or> c = 10 \<or> c = 13 \<or> c = 32"

definition skip_ws :: "jsstr \<Rightarrow> jsstr" where
  "skip_ws s = dropWhile json_ws s"

definition eat :: "nat \<Rightarrow> jsstr \<Rightarrow> jsstr option" where
  "eat c s = (case s of [] \<Rightarrow> None | x # r \<Rightarrow> if x = c then Some r else None)"

definition eat_word :: "jsstr \<Rightarrow> jsstr \<Rightarrow> jsstr option" where
  "eat_word w s = (if take (length w) s = w then Some (drop (length w) s) else None)"

text \<open>Digits, at least one.\<close>

definition json_digits :: "jsstr \<Rightarrow> (jsstr \<times> jsstr) option" where
  "json_digits s =
     (let d = takeWhile js_digit s in if d = [] then None else Some (d, dropWhile js_digit s))"

definition json_fraction :: "jsstr \<Rightarrow> (jsstr \<times> jsstr) option" where
  "json_fraction s =
     (case eat 46 s of None \<Rightarrow> Some ([], s) | Some r \<Rightarrow> map_option (\<lambda>(d, t). (46 # d, t)) (json_digits r))"

definition json_exponent :: "jsstr \<Rightarrow> (jsstr \<times> jsstr) option" where
  "json_exponent s =
     (case s of
        [] \<Rightarrow> Some ([], s)
      | c # r \<Rightarrow>
          if c \<noteq> 101 \<and> c \<noteq> 69 then Some ([], s)
          else
            (case r of
               [] \<Rightarrow> None
             | g # t \<Rightarrow>
                 if g = 43 \<or> g = 45 then map_option (\<lambda>(d, u). (c # g # d, u)) (json_digits t)
                 else map_option (\<lambda>(d, u). (c # d, u)) (json_digits r)))"

text \<open>No zero before another digit.\<close>

definition json_integer :: "jsstr \<Rightarrow> (jsstr \<times> jsstr) option" where
  "json_integer s = (case eat 48 s of Some r \<Rightarrow> Some ([48], r) | None \<Rightarrow> json_digits s)"

definition json_number :: "jsstr \<Rightarrow> (jsstr \<times> jsstr) option" where
  "json_number s =
     (let (sign, s1) = (case eat 45 s of Some r \<Rightarrow> ([45], r) | None \<Rightarrow> ([], s)) in
      case json_integer s1 of
        None \<Rightarrow> None
      | Some (i, s2) \<Rightarrow>
          (case json_fraction s2 of
             None \<Rightarrow> None
           | Some (f, s3) \<Rightarrow> map_option (\<lambda>(e, s4). (sign @ i @ f @ e, s4)) (json_exponent s3)))"

text \<open>The characters of a string after its opening quote.\<close>

definition json_escape :: "nat \<Rightarrow> nat option" where
  "json_escape e =
     (if e = 34 \<or> e = 92 \<or> e = 47 then Some e
      else if e = 98 then Some 8 else if e = 102 then Some 12 else if e = 110 then Some 10
      else if e = 114 then Some 13 else if e = 116 then Some 9 else None)"

definition json_hex4 :: "nat \<Rightarrow> nat \<Rightarrow> nat \<Rightarrow> nat \<Rightarrow> nat option" where
  "json_hex4 a b c d =
     (case (hex_value a, hex_value b, hex_value c, hex_value d) of
        (Some x, Some y, Some z, Some w) \<Rightarrow> Some (4096 * x + 256 * y + 16 * z + w)
      | _ \<Rightarrow> None)"

definition prefix_fst :: "'a \<Rightarrow> ('a list \<times> 'b) option \<Rightarrow> ('a list \<times> 'b) option" where
  "prefix_fst c r = map_option (\<lambda>(x, t). (c # x, t)) r"

fun json_chars :: "jsstr \<Rightarrow> (jsstr \<times> jsstr) option" where
  "json_chars [] = None"
| "json_chars (c # s) =
     (if c = 34 then Some ([], s)
      else if c = 92 then
        (case s of
           [] \<Rightarrow> None
         | e # t \<Rightarrow>
             if e = 117 then
               (case t of
                  h1 # h2 # h3 # h4 # u \<Rightarrow>
                    (case json_hex4 h1 h2 h3 h4 of None \<Rightarrow> None | Some n \<Rightarrow> prefix_fst n (json_chars u))
                | _ \<Rightarrow> None)
             else (case json_escape e of None \<Rightarrow> None | Some n \<Rightarrow> prefix_fst n (json_chars t)))
      else if c < 32 then None
      else prefix_fst c (json_chars s))"

text \<open>A value without white space before it, the items after a bracket, the members after a brace.\<close>

fun json_value :: "nat \<Rightarrow> jsstr \<Rightarrow> (js_value \<times> jsstr) option"
  and json_items :: "nat \<Rightarrow> jsstr \<Rightarrow> (js_value list \<times> jsstr) option"
  and json_members :: "nat \<Rightarrow> jsstr \<Rightarrow> ((jsstr \<times> js_value) list \<times> jsstr) option"
where
  "json_value 0 s = None"
| "json_value (Suc f) s =
     (case eat 34 s of
        Some r \<Rightarrow> map_option (\<lambda>(x, t). (JsString x, t)) (json_chars r)
      | None \<Rightarrow>
     (case eat 91 s of
        Some r \<Rightarrow>
          (case eat 93 (skip_ws r) of
             Some t \<Rightarrow> Some (JsArray [], t)
           | None \<Rightarrow> map_option (\<lambda>(xs, t). (JsArray xs, t)) (json_items f r))
      | None \<Rightarrow>
     (case eat 123 s of
        Some r \<Rightarrow>
          (case eat 125 (skip_ws r) of
             Some t \<Rightarrow> Some (JsObject [], t)
           | None \<Rightarrow> map_option (\<lambda>(ms, t). (JsObject ms, t)) (json_members f r))
      | None \<Rightarrow>
     (case eat_word (lit ''null'') s of Some t \<Rightarrow> Some (JsNull, t) | None \<Rightarrow>
     (case eat_word (lit ''true'') s of Some t \<Rightarrow> Some (JsBool True, t) | None \<Rightarrow>
     (case eat_word (lit ''false'') s of Some t \<Rightarrow> Some (JsBool False, t) | None \<Rightarrow>
      map_option (\<lambda>(n, t). (JsNumber n, t)) (json_number s)))))))"
| "json_items 0 s = None"
| "json_items (Suc f) s =
     (case json_value f (skip_ws s) of
        None \<Rightarrow> None
      | Some (v, t) \<Rightarrow>
          (case eat 93 (skip_ws t) of
             Some u \<Rightarrow> Some ([v], u)
           | None \<Rightarrow> (case eat 44 (skip_ws t) of None \<Rightarrow> None | Some u \<Rightarrow> prefix_fst v (json_items f u))))"
| "json_members 0 s = None"
| "json_members (Suc f) s =
     (case eat 34 (skip_ws s) of
        None \<Rightarrow> None
      | Some r \<Rightarrow>
     (case json_chars r of
        None \<Rightarrow> None
      | Some (k, t) \<Rightarrow>
     (case eat 58 (skip_ws t) of
        None \<Rightarrow> None
      | Some u \<Rightarrow>
     (case json_value f (skip_ws u) of
        None \<Rightarrow> None
      | Some (v, w) \<Rightarrow>
          (case eat 125 (skip_ws w) of
             Some x \<Rightarrow> Some ([(k, v)], x)
           | None \<Rightarrow>
               (case eat 44 (skip_ws w) of None \<Rightarrow> None | Some x \<Rightarrow> prefix_fst (k, v) (json_members f x)))))))"

text \<open>\<open>None\<close> is the \<open>SyntaxError\<close>. A duplicate key takes its last value.\<close>

definition json_parse :: "jsstr \<Rightarrow> js_value option" where
  "json_parse text =
     (case json_value (2 * length text + 1) (skip_ws text) of
        None \<Rightarrow> None
      | Some (v, rest) \<Rightarrow> if skip_ws rest = [] then Some v else None)"

definition js_get :: "js_value \<Rightarrow> jsstr \<Rightarrow> js_value option" where
  "js_get v k = (case v of JsObject ms \<Rightarrow> map_of (rev ms) k | _ \<Rightarrow> None)"

section \<open>What is read is shorter\<close>

lemma eat_Some: "eat c s = Some r \<longleftrightarrow> s = c # r"
  by (auto simp: eat_def split: list.splits if_splits)

lemma eat_Cons [simp]: "eat c (x # r) = (if x = c then Some r else None)" "eat c [] = None"
  by (simp_all add: eat_def)

lemma skip_ws_le: "length (skip_ws s) \<le> length s"
  by (simp add: skip_ws_def length_dropWhile_le)

lemma prefix_fst_Some: "prefix_fst c r = Some (y, t) \<longleftrightarrow> (\<exists>x. r = Some (x, t) \<and> y = c # x)"
  by (auto simp: prefix_fst_def)

lemma prefix_fst_simp [simp]: "prefix_fst c (Some (x, t)) = Some (c # x, t)" "prefix_fst c None = None"
  by (simp_all add: prefix_fst_def)

lemma json_chars_less: "json_chars s = Some (x, t) \<Longrightarrow> length t < length s"
proof (induction s arbitrary: x rule: json_chars.induct)
  case (2 c s)
  then show ?case
    by (force simp: prefix_fst_Some split: if_splits list.splits option.splits)
qed simp

lemma json_digits_less: "json_digits s = Some (x, t) \<Longrightarrow> length t < length s"
  by (cases s) (auto simp: json_digits_def Let_def le_imp_less_Suc length_dropWhile_le split: if_splits)

lemma json_number_less:
  assumes "json_number s = Some (x, t)"
  shows "length t < length s"
proof -
  have i: "json_integer s = Some (x, t) \<Longrightarrow> length t < length s" for s x t
    by (auto simp: json_integer_def eat_Some dest: json_digits_less split: option.splits)
  have f: "json_fraction s = Some (x, t) \<Longrightarrow> length t \<le> length s" for s x t
    by (auto simp: json_fraction_def eat_Some dest: json_digits_less split: option.splits)
  have e: "json_exponent s = Some (x, t) \<Longrightarrow> length t \<le> length s" for s x t
    by (auto simp: json_exponent_def dest: json_digits_less split: option.splits list.splits if_splits)
  show ?thesis
    using assms
    by (auto simp: json_number_def Let_def eat_Some dest!: i f e split: option.splits prod.splits)
qed

lemma eat_word_less: "eat_word w s = Some t \<Longrightarrow> w \<noteq> [] \<Longrightarrow> length t < length s"
  by (cases s) (auto simp: eat_word_def split: if_splits)

lemma json_less:
  "json_value f s = Some (v, t) \<Longrightarrow> length t < length s"
  "json_items f s = Some (vs, t) \<Longrightarrow> length t < length s"
  "json_members f s = Some (ms, t) \<Longrightarrow> length t < length s"
proof (induction f s and f s and f s arbitrary: v t and vs t and ms t rule: json_value_json_items_json_members.induct)
  case (2 f s)
  show ?case
  proof (cases s)
    case Nil
    with "2.prems" show ?thesis by (simp add: eat_word_def json_number_def json_integer_def json_digits_def)
  next
    case (Cons c r)
    have i: "length u < length r" if "c = 91" "eat 93 (skip_ws r) = None" "json_items f r = Some (xs, u)" for xs u
      using "2.IH"(2) [OF _ _ that(2,3)] that(1) by (simp add: Cons)
    have m: "length u < length r" if "c = 123" "eat 125 (skip_ws r) = None" "json_members f r = Some (xs, u)" for xs u
      using "2.IH"(1) [OF _ _ _ that(2,3)] that(1) by (simp add: Cons)
    have k: "eat d (skip_ws r) = Some u \<Longrightarrow> length u < length r" for d u
      using skip_ws_le [of r] by (simp add: eat_Some)
    from "2.prems" show ?thesis
      unfolding json_value.simps(2) Cons eat_Cons
      by (auto split: option.splits if_splits simp del: length_Cons dest!: json_chars_less json_number_less eat_word_less i m k)
  qed
next
  case (4 f s)
  from "4.prems" obtain w u where w: "json_value f (skip_ws s) = Some (w, u)"
    by (auto split: option.splits)
  have l: "length u < length s" using "4.IH"(1) [OF w] skip_ws_le [of s] by simp
  show ?case
  proof (cases "eat 93 (skip_ws u)")
    case (Some x)
    with "4.prems" w l skip_ws_le [of u] show ?thesis by (simp add: eat_Some)
  next
    case None
    with "4.prems" w obtain x xs where x: "eat 44 (skip_ws u) = Some x" "json_items f x = Some (xs, t)"
      by (auto simp: prefix_fst_Some split: option.splits)
    with "4.IH"(2) [OF w _ None x] have "length t < length x" by simp
    with x(1) l skip_ws_le [of u] show ?thesis by (simp add: eat_Some)
  qed
next
  case (6 f s)
  from "6.prems" obtain r k u x w y where r: "eat 34 (skip_ws s) = Some r" "json_chars r = Some (k, u)"
    and x: "eat 58 (skip_ws u) = Some x" and w: "json_value f (skip_ws x) = Some (w, y)"
    by (auto split: option.splits)
  have "length y < length x" using "6.IH"(1) [OF r(1) r(2) _ x w] skip_ws_le [of x] by simp
  then have l: "length y < length s"
    using r(1) json_chars_less [OF r(2)] x skip_ws_le [of s] skip_ws_le [of u] by (simp add: eat_Some)
  show ?case
  proof (cases "eat 125 (skip_ws y)")
    case (Some z)
    with "6.prems" r x w l skip_ws_le [of y] show ?thesis by (simp add: eat_Some)
  next
    case None
    with "6.prems" r x w obtain z zs where z: "eat 44 (skip_ws y) = Some z" "json_members f z = Some (zs, t)"
      by (auto simp: prefix_fst_Some split: option.splits)
    with "6.IH"(2) [OF r(1) r(2) _ x w _ None z] have "length t < length z" by simp
    with z(1) l skip_ws_le [of y] show ?thesis by (simp add: eat_Some)
  qed
qed simp_all

text \<open>Fuel beyond twice the length changes nothing: the parser never stops for lack of it.\<close>

lemma json_fuel:
  "2 * length s + 1 \<le> f \<Longrightarrow> json_value (Suc f) s = json_value f s"
  "2 * length s + 2 \<le> f \<Longrightarrow> json_items (Suc f) s = json_items f s"
  "2 * length s + 2 \<le> f \<Longrightarrow> json_members (Suc f) s = json_members f s"
proof (induction f s and f s and f s rule: json_value_json_items_json_members.induct)
  case (2 f s)
  show ?case
  proof (cases s)
    case Nil
    then show ?thesis by (simp add: eat_word_def)
  next
    case (Cons c r)
    then have l: "2 * length r + 2 \<le> f" using "2.prems" by simp
    have i: "c = 91 \<Longrightarrow> eat 93 (skip_ws r) = None \<Longrightarrow> json_items (Suc f) r = json_items f r"
      using "2.IH"(2) [OF _ _ _ l] by (simp add: Cons)
    have m: "c = 123 \<Longrightarrow> eat 125 (skip_ws r) = None \<Longrightarrow> json_members (Suc f) r = json_members f r"
      using "2.IH"(1) [of r] l by (simp add: Cons)
    show ?thesis
      unfolding json_value.simps(2) [of "Suc f" "c # r"] json_value.simps(2) [of f "c # r"] Cons eat_Cons
      using i m by (simp del: json_items.simps json_members.simps split: option.split)
  qed
next
  case (4 f s)
  have v: "json_value (Suc f) (skip_ws s) = json_value f (skip_ws s)"
    using "4.IH"(1) "4.prems" skip_ws_le [of s] by simp
  have i: "json_items (Suc f) u = json_items f u"
    if "json_value f (skip_ws s) = Some (w, t)" "eat 93 (skip_ws t) = None" "eat 44 (skip_ws t) = Some u" for w t u
  proof (rule "4.IH"(2) [OF that(1) _ that(2,3)])
    show "2 * length u + 2 \<le> f"
      using "4.prems" json_less(1) [OF that(1)] that(3) skip_ws_le [of s] skip_ws_le [of t] by (simp add: eat_Some)
  qed simp
  show ?case
    unfolding json_items.simps(2) [of "Suc f" s] json_items.simps(2) [of f s] v
    using i by (simp del: json_items.simps json_value.simps split: option.split)
next
  case (6 f s)
  have lr: "length t < length s" if "eat 34 (skip_ws s) = Some r" "json_chars r = Some (k, t)" for r k t
    using json_chars_less [OF that(2)] that(1) skip_ws_le [of s] by (simp add: eat_Some)
  have v: "json_value (Suc f) (skip_ws u) = json_value f (skip_ws u)"
    if "eat 34 (skip_ws s) = Some r" "json_chars r = Some (k, t)" "eat 58 (skip_ws t) = Some u" for r k t u
  proof (rule "6.IH"(1) [OF that(1,2) _ that(3)])
    show "2 * length (skip_ws u) + 1 \<le> f"
      using "6.prems" lr [OF that(1,2)] that(3) skip_ws_le [of t] skip_ws_le [of u] by (simp add: eat_Some)
  qed simp
  have i: "json_members (Suc f) x = json_members f x"
    if "eat 34 (skip_ws s) = Some r" "json_chars r = Some (k, t)" "eat 58 (skip_ws t) = Some u"
      "json_value f (skip_ws u) = Some (j, w)" "eat 125 (skip_ws w) = None" "eat 44 (skip_ws w) = Some x" for r k t u j w x
  proof (rule "6.IH"(2) [OF that(1,2) _ that(3,4) _ that(5,6)])
    show "2 * length x + 2 \<le> f"
      using "6.prems" lr [OF that(1,2)] that(3,6) json_less(1) [OF that(4)] skip_ws_le [of t] skip_ws_le [of u]
        skip_ws_le [of w] by (simp add: eat_Some)
  qed simp_all
  show ?case
    unfolding json_members.simps(2) [of "Suc f" s] json_members.simps(2) [of f s]
    using v i by (simp del: json_members.simps json_value.simps split: option.split)
qed simp_all

section \<open>What Python writes\<close>

text \<open>The value \<open>JSON.parse\<close> has for one of Python's; a float is not considered.\<close>

fun to_js :: "json \<Rightarrow> js_value" where
  "to_js JNull = JsNull"
| "to_js (JBool b) = JsBool b"
| "to_js (JInt i) = JsNumber (dec_int i)"
| "to_js (JFloat r) = JsNumber r"
| "to_js (JStr s) = JsString (utf16 s)"
| "to_js (JArr xs) = JsArray (map to_js xs)"
| "to_js (JObj d) = JsObject (map (\<lambda>(k, v). (utf16 k, to_js v)) d)"

fun no_float :: "json \<Rightarrow> bool" where
  "no_float (JFloat r) = False"
| "no_float (JArr xs) = list_all no_float xs"
| "no_float (JObj d) = list_all (\<lambda>(k, v). no_float v) d"
| "no_float j = True"

lemma hex_digit_value: "n < 16 \<Longrightarrow> hex_value (hex_digit n) = Some n"
  by (auto simp: hex_value_def hex_digit_def)

lemma json_chars_char:
  assumes "json_chars t = Some (x, r)"
  shows "json_chars (utf16 (dumps_char c) @ t) = Some (utf16 [c] @ x, r)"
proof -
  consider "c = 34 \<or> c = 92 \<or> c = 10 \<or> c = 13 \<or> c = 9 \<or> c = 12 \<or> c = 8"
    | "c < 32" "c \<noteq> 10" "c \<noteq> 13" "c \<noteq> 9" "c \<noteq> 12" "c \<noteq> 8" | "32 \<le> c" "c \<noteq> 34" "c \<noteq> 92" by linarith
  then show ?thesis
  proof cases
    case 1
    with assms show ?thesis by (elim disjE) (simp_all add: dumps_char_def json_escape_def)
  next
    case 2
    have hx: "hex_digit 0 = 48" by (simp add: hex_digit_def)
    have lt: "hex_digit n < 0x10000" if "n < 16" for n using that by (simp add: hex_digit_def)
    have "c div 16 < 2" using 2(1) by (simp add: less_mult_imp_div_less)
    then have d: "c div 16 < 16" "c div 16 div 16 = 0" by simp_all
    have "json_hex4 48 48 (hex_digit (c div 16)) (hex_digit (c mod 16)) = Some c"
      using d(1) by (simp add: json_hex4_def hex_digit_value hex_value_def [of 48])
    moreover have "hex_pad 4 c = hex_pad (Suc (Suc (Suc (Suc 0)))) c" by (rule arg_cong2 [of _ _ _ _ hex_pad]) simp_all
    then have "hex_pad 4 c = [48, 48, hex_digit (c div 16), hex_digit (c mod 16)]"
      using d by (simp add: hx)
    then have "utf16 (dumps_char c) = [92, 117, 48, 48, hex_digit (c div 16), hex_digit (c mod 16)]"
      using 2 lt [OF d(1)] lt [of "c mod 16"] by (simp add: dumps_char_def)
    ultimately show ?thesis using assms 2(1) by simp
  next
    case 3
    then have "dumps_char c = [c]" by (simp add: dumps_char_def)
    with 3 assms show ?thesis by simp
  qed
qed

lemma json_chars_dumps: "json_chars (utf16 (concat (map dumps_char s)) @ 34 # rest) = Some (utf16 s, rest)"
proof (induction s)
  case (Cons c s)
  show ?case
    using json_chars_char [OF Cons, of c] utf16_append [of "[c]" s] by simp
qed simp

text \<open>What may follow a value: nothing, a comma or a closing bracket.\<close>

definition json_stop :: "jsstr \<Rightarrow> bool" where
  "json_stop rest \<longleftrightarrow> rest = [] \<or> hd rest = 44 \<or> hd rest = 93 \<or> hd rest = 125"

lemma dec_nat_first: "0 < n \<Longrightarrow> hd (dec_nat n) \<noteq> 48"
proof (induction n rule: dec_nat.induct)
  case (1 n)
  then show ?case by (cases "n < 10") (simp_all add: dec_nat_step)
qed

lemma takeWhile_dec_nat:
  assumes "json_stop rest"
  shows "takeWhile js_digit (dec_nat n @ rest) = dec_nat n" "dropWhile js_digit (dec_nat n @ rest) = rest"
proof -
  have d: "\<forall>c \<in> set (dec_nat n). js_digit c" using dec_nat_digits by (auto simp: js_digit_def)
  have r: "takeWhile js_digit rest = []" "dropWhile js_digit rest = rest"
    using assms by (cases rest; auto simp: json_stop_def js_digit_def)+
  from d r show "takeWhile js_digit (dec_nat n @ rest) = dec_nat n" "dropWhile js_digit (dec_nat n @ rest) = rest"
    by (simp_all add: dropWhile_append2)
qed

lemma json_number_int:
  assumes "json_stop rest"
  shows "json_number (dec_int i @ rest) = Some (dec_int i, rest)"
proof -
  have f: "json_fraction rest = Some ([], rest)" "json_exponent rest = Some ([], rest)"
    using assms by (cases rest; auto simp: json_stop_def json_fraction_def json_exponent_def)+
  have "json_integer (dec_nat n @ rest) = Some (dec_nat n, rest)" for n
  proof (cases "n = 0")
    case False
    then have "eat 48 (dec_nat n @ rest) = None"
      using dec_nat_first [of n] by (cases "dec_nat n") (auto simp: eat_def)
    then show ?thesis
      using takeWhile_dec_nat [OF assms, of n] by (simp add: json_integer_def json_digits_def Let_def)
  qed (simp add: json_integer_def)
  moreover have "eat 45 (dec_nat n @ rest) = None" for n
    using dec_nat_digits [of 45 n] by (cases "dec_nat n") (auto simp: eat_def)
  ultimately show ?thesis using f by (simp add: dec_int_def json_number_def)
qed

lemma dec_int_first: "\<exists>c s. dec_int i = c # s \<and> (c = 45 \<or> 48 \<le> c \<and> c \<le> 57)"
proof (cases "i < 0")
  case False
  obtain c s where "dec_nat (nat i) = c # s" by (cases "dec_nat (nat i)") simp_all
  with False dec_nat_digits [of c "nat i"] show ?thesis by (simp add: dec_int_def)
qed (simp add: dec_int_def)

lemma dumps_first:
  "no_float j \<Longrightarrow> \<exists>c s. dumps j = c # s \<and> c < 128 \<and> \<not> json_ws c \<and> c \<noteq> 93 \<and> c \<noteq> 125"
proof (cases j)
  case (JInt i)
  obtain c s where c: "dec_int i = c # s" "c = 45 \<or> 48 \<le> c \<and> c \<le> 57" using dec_int_first by blast
  then have "c < 128 \<and> \<not> json_ws c \<and> c \<noteq> 93 \<and> c \<noteq> 125" by (auto simp: json_ws_def)
  with c(1) show ?thesis by (simp add: JInt)
qed (simp_all add: json_ws_def dumps_str_def)

lemma skip_ws_dumps:
  assumes "no_float j"
  shows "skip_ws (utf16 (dumps j) @ t) = utf16 (dumps j) @ t" "eat 93 (utf16 (dumps j) @ t) = None"
    "utf16 (dumps j) \<noteq> []"
  using dumps_first [OF assms] by (auto simp: skip_ws_def)

text \<open>
  With enough fuel. The white space Python writes after a comma is skipped where the next item is read.
\<close>

lemma json_value_dumps:
  "no_float j \<Longrightarrow> json_stop rest \<Longrightarrow> 2 * length (utf16 (dumps j) @ rest) + 1 \<le> f \<Longrightarrow>
     json_value f (utf16 (dumps j) @ rest) = Some (to_js j, rest)"
  "list_all no_float xs \<Longrightarrow> xs \<noteq> [] \<Longrightarrow> skip_ws s = utf16 (join (lit '', '') (dumps_items xs)) @ 93 # rest \<Longrightarrow>
     2 * length s + 2 \<le> f \<Longrightarrow> json_items f s = Some (map to_js xs, rest)"
  "list_all (\<lambda>(k, v). no_float v) d \<Longrightarrow> d \<noteq> [] \<Longrightarrow>
     skip_ws s = utf16 (join (lit '', '') (dumps_fields d)) @ 125 # rest \<Longrightarrow>
     2 * length s + 2 \<le> f \<Longrightarrow> json_members f s = Some (map (\<lambda>(k, v). (utf16 k, to_js v)) d, rest)"
proof (induction j and xs and d arbitrary: rest f and s rest f and s rest f rule: dumps_dumps_items_dumps_fields.induct)
  case (3 i)
  obtain g where f: "f = Suc g" using "3.prems"(3) by (cases f) simp_all
  obtain c s where c: "dec_int i = c # s" "c = 45 \<or> 48 \<le> c \<and> c \<le> 57" using dec_int_first by blast
  have u: "utf16 (dec_int i) = dec_int i"
    using ascii_dec_nat by (intro utf16_ascii) (simp add: dec_int_def)
  have "eat 34 (dec_int i @ rest) = None" "eat 91 (dec_int i @ rest) = None" "eat 123 (dec_int i @ rest) = None"
    "eat_word (lit ''null'') (dec_int i @ rest) = None" "eat_word (lit ''true'') (dec_int i @ rest) = None"
    "eat_word (lit ''false'') (dec_int i @ rest) = None"
    using c(2) by (auto simp: c(1) eat_word_def)
  then show ?case
    using json_number_int [OF "3.prems"(2), of i] by (simp add: f u)
next
  case (5 t)
  obtain g where f: "f = Suc g" using "5.prems"(3) by (cases f) simp_all
  show ?case using json_chars_dumps [of t rest] by (simp add: f dumps_str_def)
next
  case (6 xs)
  obtain g where f: "f = Suc g" using "6.prems"(3) by (cases f) simp_all
  show ?case
  proof (cases xs)
    case Nil
    then show ?thesis by (simp add: f skip_ws_def json_ws_def)
  next
    case (Cons x ys)
    let ?r = "utf16 (join (lit '', '') (dumps_items xs)) @ 93 # rest"
    have x: "no_float x" using "6.prems"(1) by (simp add: Cons)
    have "\<exists>t. ?r = utf16 (dumps x) @ t"
      by (cases ys) (simp_all add: Cons)
    then obtain t where t: "?r = utf16 (dumps x) @ t" ..
    have "skip_ws ?r = ?r" "eat 93 ?r = None" unfolding t by (simp_all only: skip_ws_dumps [OF x])
    moreover have "json_items g ?r = Some (map to_js xs, rest)"
      using "6.prems" \<open>skip_ws ?r = ?r\<close> by (intro "6.IH") (simp_all add: Cons f)
    ultimately show ?thesis by (simp add: f)
  qed
next
  case (7 d)
  obtain g where f: "f = Suc g" using "7.prems"(3) by (cases f) simp_all
  show ?case
  proof (cases d)
    case Nil
    then show ?thesis by (simp add: f skip_ws_def json_ws_def)
  next
    case (Cons kv ys)
    let ?r = "utf16 (join (lit '', '') (dumps_fields d)) @ 125 # rest"
    obtain k v where kv: "kv = (k, v)" by (cases kv)
    have "\<exists>t. ?r = 34 # t"
      by (cases ys) (auto simp: Cons kv dumps_str_def)
    then obtain t where t: "?r = 34 # t" ..
    have "skip_ws ?r = ?r" "eat 125 ?r = None" unfolding t by (simp_all add: skip_ws_def json_ws_def)
    moreover have "json_members g ?r = Some (map (\<lambda>(k, v). (utf16 k, to_js v)) d, rest)"
      using "7.prems" \<open>skip_ws ?r = ?r\<close> by (intro "7.IH") (simp_all add: Cons f)
    ultimately show ?thesis by (simp add: f)
  qed
next
  case (9 x xs)
  obtain g where f: "f = Suc g" using "9.prems"(4) by (cases f) simp_all
  have x: "no_float x" "list_all no_float xs" using "9.prems"(1) by simp_all
  show ?case
  proof (cases "xs = []")
    case True
    then have s: "skip_ws s = utf16 (dumps x) @ 93 # rest" using "9.prems"(3) by simp
    have "json_value g (utf16 (dumps x) @ 93 # rest) = Some (to_js x, 93 # rest)"
      using "9.prems"(4) skip_ws_le [of s] s by (intro "9.IH"(1) x) (simp_all add: json_stop_def f)
    with True s show ?thesis by (simp add: f skip_ws_def [of "93 # rest"] json_ws_def)
  next
    case False
    let ?t = "32 # utf16 (join (lit '', '') (dumps_items xs)) @ 93 # rest"
    have ne: "dumps_items xs \<noteq> []" using False by (cases xs) simp_all
    have s: "skip_ws s = utf16 (dumps x) @ 44 # ?t" using "9.prems"(3) by (simp add: join_Cons [OF ne])
    then have l: "length (utf16 (dumps x) @ 44 # ?t) \<le> length s" using skip_ws_le [of s] by simp
    have v: "json_value g (utf16 (dumps x) @ 44 # ?t) = Some (to_js x, 44 # ?t)"
      using "9.prems"(4) l by (intro "9.IH"(1) x) (simp_all add: json_stop_def f)
    have "json_items g ?t = Some (map to_js xs, rest)"
    proof (rule "9.IH"(2) [OF x(2) False])
      obtain y ys where y: "xs = y # ys" using False by (cases xs) simp_all
      then have "no_float y" using x(2) by simp
      from skip_ws_dumps(1) [OF this]
      show "skip_ws ?t = utf16 (join (lit '', '') (dumps_items xs)) @ 93 # rest"
        by (cases ys) (simp_all add: y skip_ws_def json_ws_def [of 32])
      show "2 * length ?t + 2 \<le> g" using "9.prems"(4) l f by simp
    qed
    with v s show ?thesis by (simp add: f skip_ws_def [of "44 # _"] json_ws_def [of 44])
  qed
next
  case (11 k v d)
  obtain g where f: "f = Suc g" using "11.prems"(4) by (cases f) simp_all
  have v: "no_float v" "list_all (\<lambda>(k, v). no_float v) d" using "11.prems"(1) by simp_all
  show ?case
  proof (cases "d = []")
    case True
    let ?t = "utf16 (dumps v) @ 125 # rest"
    have s: "skip_ws s = 34 # utf16 (concat (map dumps_char k)) @ 34 # 58 # 32 # ?t"
      using "11.prems"(3) True by (simp add: dumps_str_def)
    have "json_value g ?t = Some (to_js v, 125 # rest)"
      using "11.prems"(4) skip_ws_le [of s] s by (intro "11.IH"(1) v) (simp_all add: json_stop_def f)
    moreover have "skip_ws (32 # ?t) = ?t"
      using skip_ws_dumps(1) [OF v(1), of "125 # rest"] by (simp add: skip_ws_def json_ws_def [of 32])
    ultimately show ?thesis
      using True by (simp add: f s json_chars_dumps skip_ws_def [of "58 # _"] skip_ws_def [of "125 # _"]
          json_ws_def [of 58] json_ws_def [of 125])
  next
    case False
    let ?r = "32 # utf16 (join (lit '', '') (dumps_fields d)) @ 125 # rest"
    let ?t = "utf16 (dumps v) @ 44 # ?r"
    have ne: "dumps_fields d \<noteq> []" using False by (cases d) auto
    have s: "skip_ws s = 34 # utf16 (concat (map dumps_char k)) @ 34 # 58 # 32 # ?t"
      using "11.prems"(3) by (simp add: dumps_str_def join_Cons [OF ne])
    have l: "length ?t + 5 \<le> length s + 1" using skip_ws_le [of s] s by simp
    have "json_value g ?t = Some (to_js v, 44 # ?r)"
      using "11.prems"(4) l by (intro "11.IH"(1) v) (simp_all add: json_stop_def f)
    moreover have "skip_ws (32 # ?t) = ?t"
      using skip_ws_dumps(1) [OF v(1), of "44 # ?r"] by (simp add: skip_ws_def json_ws_def [of 32])
    moreover have "json_members g ?r = Some (map (\<lambda>(k, v). (utf16 k, to_js v)) d, rest)"
    proof (rule "11.IH"(2) [OF v(2) False])
      obtain k' v' ds where d: "d = (k', v') # ds" using False by (cases d) auto
      show "skip_ws ?r = utf16 (join (lit '', '') (dumps_fields d)) @ 125 # rest"
        by (cases ds) (auto simp: d skip_ws_def json_ws_def dumps_str_def)
      show "2 * length ?r + 2 \<le> g" using "11.prems"(4) l f by simp
    qed
    ultimately show ?thesis
      by (simp add: f s json_chars_dumps skip_ws_def [of "58 # _"] skip_ws_def [of "44 # _"]
          json_ws_def [of 58] json_ws_def [of 44])
  qed
qed (simp_all add: eat_word_def, (case_tac f; simp add: eat_word_def)+)

section \<open>Property\<close>

lemma json_fuel_enough:
  assumes "2 * length s + 1 \<le> f"
  shows "json_value f s = json_value (2 * length s + 1) s"
  using assms
proof (induction f rule: dec_induct)
  case (step f)
  then show ?case using json_fuel(1) [of s f] by simp
qed simp

lemma json_parse_fuel:
  "2 * length source + 1 \<le> f \<Longrightarrow> json_value f (skip_ws source) = json_value (2 * length source + 1) (skip_ws source)"
  using json_fuel_enough [of "skip_ws source" f] json_fuel_enough [of "skip_ws source" "2 * length source + 1"]
    skip_ws_le [of source] by simp

lemma json_parse_dumps:
  assumes "no_float j"
  shows "json_parse (utf16 (dumps j)) = Some (to_js j)"
proof -
  have "skip_ws (utf16 (dumps j)) = utf16 (dumps j)"
    using skip_ws_dumps(1) [OF assms, of "[]"] by simp
  moreover have "json_value (2 * length (utf16 (dumps j)) + 1) (utf16 (dumps j)) = Some (to_js j, [])"
    using json_value_dumps(1) [OF assms, of "[]" "2 * length (utf16 (dumps j)) + 1"] by (simp add: json_stop_def)
  ultimately show ?thesis by (simp add: json_parse_def skip_ws_def)
qed



end
