(* ===== verification/Config.thy ===== *)
theory Config
  imports Rfc822
begin

text \<open>
  The Worker's retry schedule (\<open>lib/backoff.ts\<close>) and its configuration (\<open>config.ts\<close>). Times are
  milliseconds and seconds as natural numbers; every product the configuration forms is exact in
  a JavaScript number as long as no entry of the schedule exceeds 285000 years.
\<close>

section \<open>lib/backoff.ts\<close>

definition DEFAULT_BACKOFF_SECONDS :: "nat list" where
  "DEFAULT_BACKOFF_SECONDS = [60, 300, 900, 3600, 21600]"

definition MAX_SAFE_INTEGER :: nat where "MAX_SAFE_INTEGER = 9007199254740991"

text \<open>\<open>/^\d+$/.test(s)\<close>, and \<open>Number(s)\<close> of such a string.\<close>

definition all_digits :: "jsstr \<Rightarrow> bool" where
  "all_digits s \<longleftrightarrow> s \<noteq> [] \<and> list_all js_digit s"

definition decimal :: "jsstr \<Rightarrow> nat" where
  "decimal s = digits_value (map (\<lambda>c. c - 48) s)"

text \<open>\<open>raw.split(",")\<close>: one piece more than there are separators.\<close>

fun js_split :: "nat \<Rightarrow> jsstr \<Rightarrow> jsstr list" where
  "js_split sep [] = [[]]"
| "js_split sep (c # s) =
     (if c = sep then [] # js_split sep s
      else (case js_split sep s of p # ps \<Rightarrow> (c # p) # ps | [] \<Rightarrow> [[c]]))"

datatype schedule_error = NotAnInteger | BelowOneSecond

definition schedule_entry :: "jsstr \<Rightarrow> (schedule_error, nat) res" where
  "schedule_entry item =
     (let trimmed = js_trim item in
      if \<not> all_digits trimmed then Inl NotAnInteger
      else
        let seconds = decimal trimmed in
        if MAX_SAFE_INTEGER < seconds \<or> seconds < 1 then Inl BelowOneSecond else Inr seconds)"

definition parse_schedule :: "jsstr \<Rightarrow> (schedule_error, nat list) res" where
  "parse_schedule raw = traverse schedule_entry (js_split 44 raw)"

text \<open>\<open>None\<close> is the \<open>RangeError\<close> of an empty schedule.\<close>

definition backoff_ms :: "nat list \<Rightarrow> nat \<Rightarrow> nat option" where
  "backoff_ms schedule attempt =
     (if schedule = [] then None
      else Some (schedule ! (min (max attempt 1) (length schedule) - 1) * 1000))"

section \<open>config.ts\<close>

text \<open>The vars and secrets of a deployment; a var that is not there, or is no string, is \<open>None\<close>.\<close>

type_synonym worker_env = "string \<Rightarrow> jsstr option"

definition VAR_NAMES :: "string list" where
  "VAR_NAMES = [''ODOO_INBOUND_URL'', ''ODOO_WEBHOOK_SECRET'', ''CF_ACCESS_CLIENT_ID'', ''CF_ACCESS_CLIENT_SECRET'',
     ''OPS_TOKEN'', ''RETENTION_DAYS'', ''MAX_ATTEMPTS'', ''BACKOFF_SECONDS'', ''DELIVERY_TIMEOUT_SECONDS'',
     ''DELIVERY_DELAY_SECONDS'']"

definition present_vars :: "worker_env \<Rightarrow> worker_env" where
  "present_vars env name =
     (case env name of
        None \<Rightarrow> None
      | Some value \<Rightarrow> if name \<in> set VAR_NAMES \<and> js_trim value \<noteq> [] then Some (js_trim value) else None)"

definition ops_token_of :: "worker_env \<Rightarrow> jsstr option" where
  "ops_token_of env = present_vars env ''OPS_TOKEN''"

record worker_config =
  inbound_url :: jsstr
  webhook_secret :: jsstr
  access_token :: "(jsstr \<times> jsstr) option"
  ops_token :: "jsstr option"
  retention_ms :: nat
  max_attempts :: nat
  backoff_seconds :: "nat list"
  delivery_timeout_ms :: nat
  delivery_delay_ms :: nat

definition DAY_MS :: nat where "DAY_MS = 86400000"
definition MAX_TIMEOUT_SECONDS :: nat where "MAX_TIMEOUT_SECONDS = 60"
definition MAX_DELAY_SECONDS :: nat where "MAX_DELAY_SECONDS = 7 * 86400"
definition MAX_RETENTION_DAYS :: nat where "MAX_RETENTION_DAYS = 3650"
definition MAX_ATTEMPTS_CEILING :: nat where "MAX_ATTEMPTS_CEILING = 10000"

text \<open>\<open>wholeNumber\<close> within its bounds, and with its default; \<open>None\<close> is an issue.\<close>

definition whole_number :: "nat \<Rightarrow> nat \<Rightarrow> nat \<Rightarrow> jsstr option \<Rightarrow> nat option" where
  "whole_number least greatest dflt v =
     (case v of
        None \<Rightarrow> Some dflt
      | Some s \<Rightarrow>
          if all_digits s \<and> decimal s \<le> MAX_SAFE_INTEGER \<and> least \<le> decimal s \<and> decimal s \<le> greatest
          then Some (decimal s) else None)"

definition schedule_var :: "jsstr option \<Rightarrow> nat list option" where
  "schedule_var v =
     (case v of
        None \<Rightarrow> Some DEFAULT_BACKOFF_SECONDS
      | Some s \<Rightarrow> (case parse_schedule s of Inl _ \<Rightarrow> None | Inr schedule \<Rightarrow> Some schedule))"

text \<open>
  \<open>loadConfig\<close>; \<open>None\<close> is the \<open>ConfigError\<close>, whatever fields it names. \<open>url_ok\<close> is the URL check of
  the validation library.
\<close>

definition load_config :: "(jsstr \<Rightarrow> bool) \<Rightarrow> worker_env \<Rightarrow> worker_config option" where
  "load_config url_ok env =
     (let v = present_vars env in
      case (v ''ODOO_INBOUND_URL'', v ''ODOO_WEBHOOK_SECRET'') of
        (Some url, Some secret) \<Rightarrow>
          if \<not> url_ok url \<or> length secret < 16
             \<or> (v ''CF_ACCESS_CLIENT_ID'' = None) \<noteq> (v ''CF_ACCESS_CLIENT_SECRET'' = None) then None
          else
            (case (whole_number 0 MAX_RETENTION_DAYS 30 (v ''RETENTION_DAYS''),
                   whole_number 1 MAX_ATTEMPTS_CEILING 32 (v ''MAX_ATTEMPTS''),
                   schedule_var (v ''BACKOFF_SECONDS''),
                   whole_number 1 MAX_TIMEOUT_SECONDS 30 (v ''DELIVERY_TIMEOUT_SECONDS''),
                   whole_number 0 MAX_DELAY_SECONDS 0 (v ''DELIVERY_DELAY_SECONDS'')) of
               (Some retention, Some attempts, Some schedule, Some timeout, Some delay) \<Rightarrow>
                 Some \<lparr>inbound_url = url, webhook_secret = secret,
                   access_token = (case (v ''CF_ACCESS_CLIENT_ID'', v ''CF_ACCESS_CLIENT_SECRET'') of
                     (Some i, Some s) \<Rightarrow> Some (i, s) | _ \<Rightarrow> None),
                   ops_token = v ''OPS_TOKEN'', retention_ms = retention * DAY_MS, max_attempts = attempts,
                   backoff_seconds = schedule, delivery_timeout_ms = timeout * 1000, delivery_delay_ms = delay * 1000\<rparr>
             | _ \<Rightarrow> None)
      | _ \<Rightarrow> None)"

section \<open>Schedules\<close>

lemma js_split_nonempty [simp]: "js_split sep s \<noteq> []"
  by (induction s) (auto split: list.splits)

lemma js_split_join: "join [sep] (js_split sep s) = s"
proof (induction s)
  case (Cons c s)
  obtain p ps where p: "js_split sep s = p # ps" by (cases "js_split sep s") simp_all
  with Cons show ?case by (cases ps) auto
qed simp

lemma js_split_no_sep: "p \<in> set (js_split sep s) \<Longrightarrow> sep \<notin> set p"
proof (induction s arbitrary: p)
  case (Cons c s)
  obtain q qs where q: "js_split sep s = q # qs" by (cases "js_split sep s") simp_all
  with Cons show ?case by (auto split: if_splits)
qed simp

lemma schedule_entry_ok: "schedule_entry item = Inr n \<Longrightarrow> 1 \<le> n \<and> n \<le> MAX_SAFE_INTEGER"
  by (auto simp: schedule_entry_def Let_def split: if_splits)

definition schedule_ok :: "nat list \<Rightarrow> bool" where
  "schedule_ok schedule \<longleftrightarrow> schedule \<noteq> [] \<and> list_all (\<lambda>n. 1 \<le> n \<and> n \<le> MAX_SAFE_INTEGER) schedule"

lemma parse_schedule_ok: "parse_schedule raw = Inr schedule \<Longrightarrow> schedule_ok schedule"
proof -
  assume p: "parse_schedule raw = Inr schedule"
  then have l: "list_all2 (\<lambda>x y. schedule_entry x = Inr y) (js_split 44 raw) schedule"
    by (simp add: parse_schedule_def traverse_Inr_iff)
  have "1 \<le> n \<and> n \<le> MAX_SAFE_INTEGER" if "n \<in> set schedule" for n
    using l that by (induction rule: list_all2_induct) (auto dest: schedule_entry_ok)
  moreover have "schedule \<noteq> []" using l js_split_nonempty [of 44 raw] by auto
  ultimately show ?thesis by (auto simp: schedule_ok_def list_all_iff)
qed

lemma default_schedule_ok: "schedule_ok DEFAULT_BACKOFF_SECONDS"
  by (simp add: schedule_ok_def DEFAULT_BACKOFF_SECONDS_def MAX_SAFE_INTEGER_def)

lemma schedule_var_ok: "schedule_var v = Some schedule \<Longrightarrow> schedule_ok schedule"
  by (auto simp: schedule_var_def default_schedule_ok parse_schedule_ok split: option.splits sum.splits)

text \<open>A wait is at least one second, whatever the attempt.\<close>

lemma backoff_ms_ok:
  assumes "schedule_ok schedule"
  shows "\<exists>ms. backoff_ms schedule attempt = Some ms \<and> 1000 \<le> ms"
proof -
  let ?i = "min (max attempt 1) (length schedule) - 1"
  have "?i < length schedule" using assms by (cases schedule) (auto simp: schedule_ok_def)
  then have "1 \<le> schedule ! ?i" using assms by (auto simp: schedule_ok_def list_all_length)
  with assms show ?thesis by (auto simp: backoff_ms_def schedule_ok_def)
qed

section \<open>Configurations\<close>

definition config_ok :: "worker_config \<Rightarrow> bool" where
  "config_ok c \<longleftrightarrow> 16 \<le> length (webhook_secret c) \<and> 1 \<le> max_attempts c \<and> max_attempts c \<le> 10000
     \<and> schedule_ok (backoff_seconds c) \<and> retention_ms c \<le> 3650 * 86400000
     \<and> 1000 \<le> delivery_timeout_ms c \<and> delivery_timeout_ms c \<le> 60000 \<and> delivery_delay_ms c \<le> 7 * 86400000"

lemma whole_number_bounds:
  "whole_number least greatest dflt v = Some n \<Longrightarrow> least \<le> dflt \<Longrightarrow> dflt \<le> greatest \<Longrightarrow> least \<le> n \<and> n \<le> greatest"
  by (auto simp: whole_number_def split: option.splits if_splits)

lemma load_config_Some:
  assumes "load_config url_ok env = Some c"
  shows "\<exists>retention attempts schedule timeout delay.
    whole_number 0 MAX_RETENTION_DAYS 30 (present_vars env ''RETENTION_DAYS'') = Some retention
    \<and> whole_number 1 MAX_ATTEMPTS_CEILING 32 (present_vars env ''MAX_ATTEMPTS'') = Some attempts
    \<and> schedule_var (present_vars env ''BACKOFF_SECONDS'') = Some schedule
    \<and> whole_number 1 MAX_TIMEOUT_SECONDS 30 (present_vars env ''DELIVERY_TIMEOUT_SECONDS'') = Some timeout
    \<and> whole_number 0 MAX_DELAY_SECONDS 0 (present_vars env ''DELIVERY_DELAY_SECONDS'') = Some delay
    \<and> url_ok (inbound_url c) \<and> 16 \<le> length (webhook_secret c)
    \<and> retention_ms c = retention * DAY_MS \<and> max_attempts c = attempts \<and> backoff_seconds c = schedule
    \<and> delivery_timeout_ms c = timeout * 1000 \<and> delivery_delay_ms c = delay * 1000
    \<and> present_vars env ''ODOO_WEBHOOK_SECRET'' = Some (webhook_secret c) \<and> ops_token c = ops_token_of env"
  using assms unfolding load_config_def Let_def ops_token_of_def
  by (auto split: option.splits if_splits prod.splits)

lemma load_config_ok:
  assumes "load_config url_ok env = Some c"
  shows "config_ok c"
proof -
  from load_config_Some [OF assms] obtain r a s t d where
    r: "whole_number 0 MAX_RETENTION_DAYS 30 (present_vars env ''RETENTION_DAYS'') = Some r"
    and a: "whole_number 1 MAX_ATTEMPTS_CEILING 32 (present_vars env ''MAX_ATTEMPTS'') = Some a"
    and s: "schedule_var (present_vars env ''BACKOFF_SECONDS'') = Some s"
    and t: "whole_number 1 MAX_TIMEOUT_SECONDS 30 (present_vars env ''DELIVERY_TIMEOUT_SECONDS'') = Some t"
    and d: "whole_number 0 MAX_DELAY_SECONDS 0 (present_vars env ''DELIVERY_DELAY_SECONDS'') = Some d"
    and c: "16 \<le> length (webhook_secret c)" "retention_ms c = r * DAY_MS" "max_attempts c = a" "backoff_seconds c = s"
      "delivery_timeout_ms c = t * 1000" "delivery_delay_ms c = d * 1000"
    by blast
  show ?thesis
    using whole_number_bounds [OF r] whole_number_bounds [OF a] whole_number_bounds [OF t] whole_number_bounds [OF d]
      schedule_var_ok [OF s]
    by (simp add: config_ok_def c DAY_MS_def MAX_RETENTION_DAYS_def MAX_ATTEMPTS_CEILING_def MAX_TIMEOUT_SECONDS_def
        MAX_DELAY_SECONDS_def)
qed

section \<open>Properties\<close>

lemma js_split_no_sep_id: "sep \<notin> set s \<Longrightarrow> js_split sep s = [s]"
  by (induction s) auto

lemma js_split_append: "sep \<notin> set p \<Longrightarrow> js_split sep (p @ sep # s) = p # js_split sep s"
proof (induction p)
  case (Cons c p)
  then show ?case by auto
qed simp

lemma js_split_of_join:
  "xs \<noteq> [] \<Longrightarrow> (\<And>x. x \<in> set xs \<Longrightarrow> sep \<notin> set x) \<Longrightarrow> js_split sep (join [sep] xs) = xs"
proof (induction xs)
  case (Cons x xs)
  then show ?case
    by (cases "xs = []") (simp_all add: js_split_no_sep_id join_Cons js_split_append)
qed simp

lemma int_digits_plain:
  "list_all js_digit s \<Longrightarrow> s \<noteq> [] \<or> p \<Longrightarrow> int_digits p s = Some (map (\<lambda>c. c - 48) s)"
  by (induction p s rule: int_digits.induct) (auto simp: js_digit_def)

lemma dec_nat_js: "all_digits (dec_nat n)" "decimal (dec_nat n) = n" "js_trim (dec_nat n) = dec_nat n"
proof -
  have d: "list_all js_digit (dec_nat n)"
    using dec_nat_digits by (auto simp: list_all_iff js_digit_def)
  then show "all_digits (dec_nat n)" by (simp add: all_digits_def)
  show "decimal (dec_nat n) = n"
    using int_digits_dec_nat [of n] int_digits_plain [OF d, of False] by (auto simp: decimal_def)
  have "\<not> js_space (hd (dec_nat n))" "\<not> js_space (last (dec_nat n))"
    using dec_nat_digits [of "hd (dec_nat n)" n] dec_nat_digits [of "last (dec_nat n)" n]
    by (auto simp: js_space_def)
  then show "js_trim (dec_nat n) = dec_nat n" unfolding js_trim_def by (intro strip_by_id) simp
qed

text \<open>
  A schedule is read strictly and in full: the text of a list of positive safe integers,
  separated by commas, is read back to this list; and whatever text is accepted has one entry
  per piece, each the value of the piece's digits, none below one second.
\<close>

theorem schedule_roundtrip:
  "(schedule_ok schedule \<longrightarrow> parse_schedule (join [44] (map dec_nat schedule)) = Inr schedule)
   \<and> (parse_schedule raw = Inr result \<longrightarrow> schedule_ok result
        \<and> result = map (decimal \<circ> js_trim) (js_split 44 raw) \<and> list_all (all_digits \<circ> js_trim) (js_split 44 raw))"
proof (intro conjI impI)
  assume ok: "schedule_ok schedule"
  have "js_split 44 (join [44] (map dec_nat schedule)) = map dec_nat schedule"
    using ok dec_nat_digits [of 44] by (intro js_split_of_join) (auto simp: schedule_ok_def)
  moreover have "schedule_entry (dec_nat n) = Inr n" if "n \<in> set schedule" for n
    using ok that by (auto simp: schedule_entry_def dec_nat_js Let_def schedule_ok_def list_all_iff)
  then have "traverse schedule_entry (map dec_nat schedule) = Inr schedule"
    by (induction schedule) auto
  ultimately show "parse_schedule (join [44] (map dec_nat schedule)) = Inr schedule"
    by (simp add: parse_schedule_def)
next
  assume r: "parse_schedule raw = Inr result"
  then show "schedule_ok result" by (rule parse_schedule_ok)
  from r have l: "list_all2 (\<lambda>x y. schedule_entry x = Inr y) (js_split 44 raw) result"
    by (simp add: parse_schedule_def traverse_Inr_iff)
  then show "result = map (decimal \<circ> js_trim) (js_split 44 raw)"
    by (induction rule: list_all2_induct) (auto simp: schedule_entry_def Let_def split: if_splits)
  from l show "list_all (all_digits \<circ> js_trim) (js_split 44 raw)"
    by (induction rule: list_all2_induct) (auto simp: schedule_entry_def Let_def split: if_splits)
qed

theorem schedule_roundtrip_witness:
  "parse_schedule (join [44] (map dec_nat DEFAULT_BACKOFF_SECONDS)) = Inr DEFAULT_BACKOFF_SECONDS"
  using schedule_roundtrip [of DEFAULT_BACKOFF_SECONDS] default_schedule_ok by blast

text \<open>The two vars that have no default, and a blank token.\<close>

definition sample_worker_env :: worker_env where
  "sample_worker_env = [''ODOO_INBOUND_URL'' \<mapsto> lit ''https://o'', ''ODOO_WEBHOOK_SECRET'' \<mapsto> lit '' 0123456789abcdef'',
     ''OPS_TOKEN'' \<mapsto> lit '' '']"

lemma sample_vars:
  "present_vars sample_worker_env ''ODOO_INBOUND_URL'' = Some (lit ''https://o'')"
  "present_vars sample_worker_env ''ODOO_WEBHOOK_SECRET'' = Some (lit ''0123456789abcdef'')"
  "present_vars sample_worker_env ''OPS_TOKEN'' = None"
  "present_vars sample_worker_env ''CF_ACCESS_CLIENT_ID'' = None" "present_vars sample_worker_env ''CF_ACCESS_CLIENT_SECRET'' = None"
  "present_vars sample_worker_env ''RETENTION_DAYS'' = None" "present_vars sample_worker_env ''MAX_ATTEMPTS'' = None"
  "present_vars sample_worker_env ''BACKOFF_SECONDS'' = None" "present_vars sample_worker_env ''DELIVERY_TIMEOUT_SECONDS'' = None"
  "present_vars sample_worker_env ''DELIVERY_DELAY_SECONDS'' = None"
  by (simp_all add: present_vars_def sample_worker_env_def VAR_NAMES_def js_trim_def strip_by_def js_space_def)

lemma sample_config:
  "\<exists>c. load_config (\<lambda>u. True) sample_worker_env = Some c \<and> webhook_secret c = lit ''0123456789abcdef''
     \<and> ops_token c = None \<and> delivery_delay_ms c = 0 \<and> max_attempts c = 32
     \<and> retention_ms c = 30 * 86400000"
  by (simp add: load_config_def sample_vars whole_number_def schedule_var_def DAY_MS_def)

text \<open>
  C23. A configuration that loads is within its bounds: a secret of at least 16 code units, 1 to 10000 attempts,
  a timeout of 1 to 60 seconds, a delay of at most a week, a retention of at most ten years, and a wait of at
  least one second after every attempt, so that a failing endpoint is never tried in a tight loop by a retry;
  with every tunable absent it is the documented default.
\<close>

theorem load_config_bounds:
  assumes "load_config url_ok env = Some c"
  shows "url_ok (inbound_url c) \<and> 16 \<le> length (webhook_secret c)
    \<and> 1 \<le> max_attempts c \<and> max_attempts c \<le> 10000
    \<and> 1000 \<le> delivery_timeout_ms c \<and> delivery_timeout_ms c \<le> 60000
    \<and> delivery_delay_ms c \<le> 7 * 86400000 \<and> retention_ms c \<le> 3650 * 86400000
    \<and> (\<exists>ms. backoff_ms (backoff_seconds c) attempt = Some ms \<and> 1000 \<le> ms)
    \<and> (present_vars env ''MAX_ATTEMPTS'' = None \<and> present_vars env ''BACKOFF_SECONDS'' = None
         \<and> present_vars env ''RETENTION_DAYS'' = None \<and> present_vars env ''DELIVERY_DELAY_SECONDS'' = None
         \<and> present_vars env ''DELIVERY_TIMEOUT_SECONDS'' = None
         \<longrightarrow> max_attempts c = 32 \<and> backoff_seconds c = [60, 300, 900, 3600, 21600]
           \<and> retention_ms c = 30 * 86400000 \<and> delivery_delay_ms c = 0 \<and> delivery_timeout_ms c = 30000)"
proof -
  have ok: "config_ok c" by (rule load_config_ok [OF assms])
  then have "\<exists>ms. backoff_ms (backoff_seconds c) attempt = Some ms \<and> 1000 \<le> ms"
    by (simp add: config_ok_def backoff_ms_ok)
  moreover note load_config_Some [OF assms]
  ultimately show ?thesis using ok
    by (auto simp: config_ok_def whole_number_def schedule_var_def DEFAULT_BACKOFF_SECONDS_def DAY_MS_def)
qed

theorem load_config_bounds_witness:
  "\<exists>c. load_config (\<lambda>u. True) sample_worker_env = Some c \<and> max_attempts c = 32 \<and> retention_ms c = 30 * 86400000
     \<and> webhook_secret c = lit ''0123456789abcdef'' \<and> ops_token c = None"
proof -
  have "\<exists>c. load_config (\<lambda>u. True) sample_worker_env = Some c \<and> webhook_secret c = lit ''0123456789abcdef''
     \<and> ops_token c = None" using sample_config by blast
  then obtain c where c: "load_config (\<lambda>u. True) sample_worker_env = Some c"
    "webhook_secret c = lit ''0123456789abcdef''" "ops_token c = None" by blast
  with load_config_bounds [OF c(1)] sample_vars show ?thesis by auto
qed

end
