(* ===== verification/Queue.thy ===== *)
theory Queue
  imports Inbound JsJson Config "HOL-Library.List_Lexorder" "HOL-Library.Product_Lexorder"
begin

text \<open>
  The Worker's queue (\<open>inbox-do.ts\<close>): its rows, its operations and the pieces of a delivery
  pass, each the code between two points where it waits for R2 or for the network; and the
  e-mail handler that fills it (\<open>handlers/email.ts\<close>). Times are milliseconds.
\<close>

section \<open>Rows and state\<close>

datatype inbox_status = StPending | StDelivered | StRejected | StDead

record inbox_row =
  q_id :: jsstr
  q_r2_key :: jsstr
  q_from :: jsstr
  q_to :: jsstr
  q_message_id :: "jsstr option"
  q_size :: nat
  q_received_at :: nat
  q_status :: inbox_status
  q_attempts :: nat
  q_next_attempt_at :: "nat option"
  q_last_attempt_at :: "nat option"
  q_last_status :: "int option"
  q_last_error :: "jsstr option"
  q_thread_id :: "jsstr option"
  q_delivered_at :: "nat option"
  q_purge_at :: "nat option"

record enqueue_input =
  e_id :: jsstr
  e_r2_key :: jsstr
  e_from :: jsstr
  e_to :: jsstr
  e_message_id :: "jsstr option"
  e_size :: nat
  e_received_at :: nat

text \<open>The table in the order of its row ids, the alarm, and the bucket.\<close>

record worker =
  inbox :: "inbox_row list"
  alarm_at :: "nat option"
  bucket :: "jsstr \<Rightarrow> bytes option"

definition ALARM_BATCH :: nat where "ALARM_BATCH = 10"
definition PURGE_BATCH :: nat where "PURGE_BATCH = 100"
definition ALARM_RETRY_MS :: nat where "ALARM_RETRY_MS = 60000"
definition MAX_ERROR_CHARS :: nat where "MAX_ERROR_CHARS = 200"
definition MAX_LIST :: int where "MAX_LIST = 1000"

section \<open>Operations of the queue\<close>

definition find_row :: "jsstr \<Rightarrow> inbox_row list \<Rightarrow> inbox_row option" where
  "find_row i rows = find (\<lambda>r. q_id r = i) rows"

definition arm_no_later_than :: "nat \<Rightarrow> worker \<Rightarrow> worker" where
  "arm_no_later_than at w =
     (case alarm_at w of
        None \<Rightarrow> w\<lparr>alarm_at := Some at\<rparr>
      | Some current \<Rightarrow> if at < current then w\<lparr>alarm_at := Some at\<rparr> else w)"

text \<open>A configuration that does not load delays nothing.\<close>

definition delivery_delay :: "worker_config option \<Rightarrow> nat" where
  "delivery_delay cfg = (case cfg of None \<Rightarrow> 0 | Some c \<Rightarrow> delivery_delay_ms c)"

definition new_row :: "enqueue_input \<Rightarrow> nat \<Rightarrow> inbox_row" where
  "new_row e at =
     \<lparr>q_id = e_id e, q_r2_key = e_r2_key e, q_from = e_from e, q_to = e_to e, q_message_id = e_message_id e,
      q_size = e_size e, q_received_at = e_received_at e, q_status = StPending, q_attempts = 0,
      q_next_attempt_at = Some at, q_last_attempt_at = None, q_last_status = None, q_last_error = None,
      q_thread_id = None, q_delivered_at = None, q_purge_at = None\<rparr>"

definition enqueue :: "nat \<Rightarrow> worker_config option \<Rightarrow> enqueue_input \<Rightarrow> worker \<Rightarrow> worker \<times> bool" where
  "enqueue now cfg e w =
     (let at = now + delivery_delay cfg in
      if find_row (e_id e) (inbox w) \<noteq> None then (w, False)
      else (arm_no_later_than at (w\<lparr>inbox := inbox w @ [new_row e at]\<rparr>), True))"

text \<open>An \<open>UPDATE\<close> with its guard, and whether it touched a row.\<close>

definition update_rows :: "(inbox_row \<Rightarrow> bool) \<Rightarrow> (inbox_row \<Rightarrow> inbox_row) \<Rightarrow> worker \<Rightarrow> worker" where
  "update_rows P f w = w\<lparr>inbox := map (\<lambda>r. if P r then f r else r) (inbox w)\<rparr>"

definition requeued :: "nat \<Rightarrow> inbox_row \<Rightarrow> inbox_row" where
  "requeued now r = r\<lparr>q_status := StPending, q_attempts := 0, q_next_attempt_at := Some now, q_purge_at := None\<rparr>"

datatype retry_result = Requeued | NotFound | AlreadyPending

definition retry :: "nat \<Rightarrow> jsstr \<Rightarrow> worker \<Rightarrow> worker \<times> retry_result" where
  "retry now i w =
     (let P = (\<lambda>r. q_id r = i \<and> q_status r \<noteq> StPending) in
      if list_ex P (inbox w) then (arm_no_later_than now (update_rows P (requeued now) w), Requeued)
      else (w, if find_row i (inbox w) = None then NotFound else AlreadyPending))"

text \<open>\<open>None\<close> is the \<open>RangeError\<close>.\<close>

definition retry_all :: "nat \<Rightarrow> inbox_status \<Rightarrow> worker \<Rightarrow> (worker \<times> nat) option" where
  "retry_all now st w =
     (if st \<noteq> StDead \<and> st \<noteq> StRejected then None
      else
        let P = (\<lambda>r. q_status r = st); count = length (filter P (inbox w)); w1 = update_rows P (requeued now) w in
        Some (if 0 < count then arm_no_later_than now w1 else w1, count))"

definition delete_objects :: "jsstr list \<Rightarrow> worker \<Rightarrow> worker" where
  "delete_objects ks w = w\<lparr>bucket := (\<lambda>k. if k \<in> set ks then None else bucket w k)\<rparr>"

definition delete_rows :: "(inbox_row \<Rightarrow> bool) \<Rightarrow> worker \<Rightarrow> worker" where
  "delete_rows P w = w\<lparr>inbox := filter (\<lambda>r. \<not> P r) (inbox w)\<rparr>"

text \<open>\<open>remove\<close>: the look-up, then the object, then the row; it waits for R2 in between.\<close>

definition remove_key :: "jsstr \<Rightarrow> worker \<Rightarrow> jsstr option" where
  "remove_key i w = map_option q_r2_key (find_row i (inbox w))"

definition remove_row :: "jsstr \<Rightarrow> worker \<Rightarrow> worker" where
  "remove_row i w = delete_rows (\<lambda>r. q_id r = i) w"

definition remove :: "jsstr \<Rightarrow> worker \<Rightarrow> worker \<times> bool" where
  "remove i w =
     (case remove_key i w of None \<Rightarrow> (w, False) | Some k \<Rightarrow> (remove_row i (delete_objects [k] w), True))"

text \<open>\<open>list\<close>: newest first, between 1 and \<open>MAX_LIST\<close> rows.\<close>

definition list_rows :: "inbox_status option \<Rightarrow> int \<Rightarrow> worker \<Rightarrow> inbox_row list" where
  "list_rows st limit w =
     take (nat (min (max limit 1) MAX_LIST))
       (rev (sort_key q_id (filter (\<lambda>r. case st of None \<Rightarrow> True | Some s \<Rightarrow> q_status r = s) (inbox w))))"

section \<open>The pieces of a pass\<close>

text \<open>The earliest thing left to do.\<close>

definition next_times :: "inbox_row list \<Rightarrow> nat list" where
  "next_times rows =
     List.map_filter q_next_attempt_at (filter (\<lambda>r. q_status r = StPending) rows) @ List.map_filter q_purge_at rows"

definition rearm :: "worker \<Rightarrow> worker" where
  "rearm w = w\<lparr>alarm_at := (let ts = next_times (inbox w) in if ts = [] then None else Some (Min (set ts)))\<rparr>"

definition reached :: "nat \<Rightarrow> nat option \<Rightarrow> bool" where
  "reached now t = (case t of None \<Rightarrow> False | Some x \<Rightarrow> x \<le> now)"

definition due_rows :: "nat \<Rightarrow> nat \<Rightarrow> inbox_row list \<Rightarrow> inbox_row list" where
  "due_rows now batch rows =
     take batch (sort_key (\<lambda>r. (the (q_next_attempt_at r), q_id r))
       (filter (\<lambda>r. q_status r = StPending \<and> reached now (q_next_attempt_at r)) rows))"

text \<open>Rows with the same \<open>purge_at\<close> come in the order of the index, which is that of their row ids.\<close>

definition expired_rows :: "nat \<Rightarrow> inbox_row list \<Rightarrow> (jsstr \<times> jsstr) list" where
  "expired_rows now rows =
     map (\<lambda>r. (q_id r, q_r2_key r))
       (take PURGE_BATCH (sort_key (\<lambda>r. the (q_purge_at r)) (filter (\<lambda>r. reached now (q_purge_at r)) rows)))"

definition purge_rows :: "jsstr list \<Rightarrow> worker \<Rightarrow> worker" where
  "purge_rows ids w = fold (\<lambda>i. delete_rows (\<lambda>r. q_id r = i \<and> q_purge_at r \<noteq> None)) ids w"

section \<open>One attempt\<close>

record web_response =
  resp_status :: int
  resp_body :: "bytes option" \<comment> \<open>\<open>None\<close>: reading the body fails\<close>

text \<open>\<open>response.text()\<close>: UTF-8 without its byte order mark.\<close>

definition body_text :: "web_response \<Rightarrow> jsstr option" where
  "body_text r =
     map_option (\<lambda>b. utf16 (decode_replace (if take 3 b = [0xEF, 0xBB, 0xBF] then drop 3 b else b))) (resp_body r)"

definition thread_id_of :: "web_response \<Rightarrow> jsstr option" where
  "thread_id_of r =
     (case body_text r of
        None \<Rightarrow> None
      | Some t \<Rightarrow>
          (case json_parse t of
             None \<Rightarrow> None
           | Some v \<Rightarrow> (case js_get v (lit ''thread_id'') of Some (JsNumber n) \<Rightarrow> Some n | _ \<Rightarrow> None)))"

text \<open>\<open>text.split(/\r?\n/, 1)[0]\<close>\<close>

definition first_line :: "jsstr \<Rightarrow> jsstr" where
  "first_line t =
     (let l = takeWhile (\<lambda>c. c \<noteq> 10) t in
      if 10 \<in> set t \<and> l \<noteq> [] \<and> last l = 13 then butlast l else l)"

definition error_of :: "web_response \<Rightarrow> jsstr" where
  "error_of r =
     (let t = (case body_text r of None \<Rightarrow> [] | Some b \<Rightarrow> js_trim b);
          http = lit ''HTTP '' @ dec_int (resp_status r);
          line = first_line t in
      take MAX_ERROR_CHARS
        (case json_parse t of
           Some v \<Rightarrow>
             (case js_get v (lit ''error'') of
                Some (JsString e) \<Rightarrow> http @ lit '': '' @ e
              | _ \<Rightarrow> if line = [] then http else http @ lit '': '' @ line)
         | None \<Rightarrow> if line = [] then http else http @ lit '': '' @ line))"

text \<open>The request of an attempt; \<open>None\<close> is the \<open>URIError\<close> of \<open>asciiValue\<close>.\<close>

definition request_headers :: "pystr \<Rightarrow> worker_config \<Rightarrow> inbox_row \<Rightarrow> nat \<Rightarrow> bytes \<Rightarrow> http_headers option" where
  "request_headers version c row now body =
     (case (ascii_value (q_from row), ascii_value (q_to row)) of
        (Some ef, Some et) \<Rightarrow>
          Some (delivery_headers version (q_id row) (text_encode (webhook_secret c)) (unix_seconds now) body ef et
                  (q_attempts row + 1)
                @ (case access_token c of
                     None \<Rightarrow> []
                   | Some (i, s) \<Rightarrow> [(lit ''CF-Access-Client-Id'', i), (lit ''CF-Access-Client-Secret'', s)]))
      | _ \<Rightarrow> None)"

datatype attempt_verdict = Classified outcome | Hopeless

datatype fetch_result = Answered web_response | NotAnswered jsstr

text \<open>Verdict, status, error and thread id of an attempt.\<close>

definition judge_answer :: "fetch_result \<Rightarrow> attempt_verdict \<times> int option \<times> jsstr option \<times> jsstr option" where
  "judge_answer f =
     (case f of
        NotAnswered message \<Rightarrow> (Classified RetryLater, None, Some message, None)
      | Answered r \<Rightarrow>
          let v = classify_status (resp_status r) in
          if v = Delivered then (Classified v, Some (resp_status r), None, thread_id_of r)
          else (Classified v, Some (resp_status r), Some (error_of r), None))"

text \<open>The outcome after the attempt budget, and the row it makes; \<open>None\<close> is the \<open>RangeError\<close> of an empty schedule.\<close>

definition final_outcome :: "worker_config \<Rightarrow> nat \<Rightarrow> attempt_verdict \<Rightarrow> attempt_verdict" where
  "final_outcome c attempt v =
     (if v = Classified RetryLater \<and> max_attempts c \<le> attempt then Hopeless else v)"

definition settled_row ::
  "worker_config \<Rightarrow> nat \<Rightarrow> nat \<Rightarrow> attempt_verdict \<Rightarrow> int option \<Rightarrow> jsstr option \<Rightarrow> jsstr option \<Rightarrow> inbox_row
     \<Rightarrow> inbox_row option"
where
  "settled_row c now attempt verdict st error thread r =
     (let out = final_outcome c attempt verdict;
          upd = (\<lambda>s next delivered purge. r\<lparr>q_status := s, q_attempts := attempt, q_next_attempt_at := next,
                   q_last_attempt_at := Some now, q_last_status := st,
                   q_last_error := map_option (take MAX_ERROR_CHARS) error, q_thread_id := thread,
                   q_delivered_at := delivered, q_purge_at := purge\<rparr>) in
      case out of
        Hopeless \<Rightarrow> Some (upd StDead None None None)
      | Classified Delivered \<Rightarrow> Some (upd StDelivered None (Some now) (Some (now + retention_ms c)))
      | Classified Rejected \<Rightarrow> Some (upd StRejected None None None)
      | Classified RetryLater \<Rightarrow>
          map_option (\<lambda>ms. upd StPending (Some (now + ms)) None None) (backoff_ms (backoff_seconds c) attempt))"

definition settle ::
  "worker_config \<Rightarrow> nat \<Rightarrow> inbox_row \<Rightarrow> attempt_verdict \<Rightarrow> int option \<Rightarrow> jsstr option \<Rightarrow> jsstr option
     \<Rightarrow> worker \<Rightarrow> worker option"
where
  "settle c now row verdict st error thread w =
     (let attempt = q_attempts row + 1 in
      if settled_row c now attempt verdict st error thread row = None then None
      else
        Some (update_rows (\<lambda>r. q_id r = q_id row \<and> q_status r = StPending)
                (\<lambda>r. the (settled_row c now attempt verdict st error thread r)) w))"

section \<open>The e-mail handler\<close>

definition MAX_METADATA_ADDRESS :: nat where "MAX_METADATA_ADDRESS = 256"

text \<open>
  What becomes of an incoming message: a permanent rejection, an exception (the sender tries
  again later), or an object for R2 and a row for the queue.
\<close>

datatype email_result =
    SetReject
  | Thrown
  | Store jsstr bytes enqueue_input

definition object_key :: "jsstr \<Rightarrow> jsstr \<Rightarrow> jsstr" where
  "object_key key_prefix i = key_prefix @ i @ lit ''.eml''"

definition handle_email ::
  "jsstr \<Rightarrow> jsstr \<Rightarrow> nat \<Rightarrow> jsstr \<Rightarrow> jsstr \<Rightarrow> bytes \<Rightarrow> jsstr option \<Rightarrow> email_result"
where
  "handle_email key_prefix i now from to raw mid =
     (case bindR (assert_header_safe ''Delivered-To'' to) (\<lambda>_. assert_header_safe ''Return-Path'' from) of
        Inl _ \<Rightarrow> SetReject
      | Inr _ \<Rightarrow>
          (case prepend_headers raw (envelope_headers from to) of
             Inl _ \<Rightarrow> Thrown
           | Inr stored \<Rightarrow>
               if ascii_value (take MAX_METADATA_ADDRESS from) = None \<or> ascii_value (take MAX_METADATA_ADDRESS to) = None
               then Thrown
               else
                 Store (object_key key_prefix i) stored
                   \<lparr>e_id = i, e_r2_key = object_key key_prefix i, e_from = from, e_to = to, e_message_id = message_id_of mid,
                    e_size = length stored, e_received_at = now\<rparr>))"

section \<open>Well-formed queues\<close>

text \<open>
  A row has a next attempt exactly while it is pending and a purge date exactly while it is
  delivered; its error fits the column's \<open>CHECK\<close>.
\<close>

definition row_ok :: "inbox_row \<Rightarrow> bool" where
  "row_ok r \<longleftrightarrow> (q_status r = StPending \<longleftrightarrow> q_next_attempt_at r \<noteq> None)
     \<and> (q_status r = StDelivered \<longleftrightarrow> q_purge_at r \<noteq> None)
     \<and> (case q_last_error r of None \<Rightarrow> True | Some e \<Rightarrow> length e \<le> 200)"

text \<open>A table: its ids are distinct (the primary key) and every row has a property.\<close>

definition table :: "(inbox_row \<Rightarrow> bool) \<Rightarrow> inbox_row list \<Rightarrow> bool" where
  "table Q rows \<longleftrightarrow> distinct (map q_id rows) \<and> list_all Q rows"

lemma row_ok_new: "row_ok (new_row e at)"
  by (simp add: row_ok_def new_row_def)

lemma row_ok_requeued: "row_ok r \<Longrightarrow> row_ok (requeued now r)"
  by (simp add: row_ok_def requeued_def)

lemma requeued_same [simp]: "q_id (requeued now r) = q_id r" "q_r2_key (requeued now r) = q_r2_key r"
  "q_status (requeued now r) = StPending" "q_attempts (requeued now r) = 0"
  "q_next_attempt_at (requeued now r) = Some now" "q_purge_at (requeued now r) = None"
  by (simp_all add: requeued_def)

text \<open>What a settled row is, on every branch.\<close>

lemma settled_row_cases:
  assumes "settled_row c now n v st e th r = Some r'"
  shows "q_id r' = q_id r \<and> q_r2_key r' = q_r2_key r \<and> q_from r' = q_from r \<and> q_to r' = q_to r
    \<and> q_attempts r' = n \<and> q_last_attempt_at r' = Some now \<and> q_last_status r' = st
    \<and> q_last_error r' = map_option (take 200) e \<and> q_thread_id r' = th
    \<and> (case final_outcome c n v of
         Hopeless \<Rightarrow> q_status r' = StDead \<and> q_next_attempt_at r' = None \<and> q_purge_at r' = None
       | Classified Delivered \<Rightarrow> q_status r' = StDelivered \<and> q_next_attempt_at r' = None
           \<and> q_delivered_at r' = Some now \<and> q_purge_at r' = Some (now + retention_ms c)
       | Classified Rejected \<Rightarrow> q_status r' = StRejected \<and> q_next_attempt_at r' = None \<and> q_purge_at r' = None
       | Classified RetryLater \<Rightarrow> q_status r' = StPending \<and> q_purge_at r' = None
           \<and> (\<exists>ms. backoff_ms (backoff_seconds c) n = Some ms \<and> q_next_attempt_at r' = Some (now + ms)))"
  using assms by (auto simp: settled_row_def Let_def MAX_ERROR_CHARS_def split: attempt_verdict.splits outcome.splits)

lemma row_ok_settled: "settled_row c now n v st e th r = Some r' \<Longrightarrow> row_ok r'"
  by (drule settled_row_cases)
    (auto simp: row_ok_def split: attempt_verdict.splits outcome.splits option.splits)

lemma settled_delivered:
  "settled_row c now n v st e th r = Some r' \<Longrightarrow> q_status r' = StDelivered \<Longrightarrow> v = Classified Delivered"
  by (drule settled_row_cases)
    (auto simp: final_outcome_def split: attempt_verdict.splits outcome.splits if_splits)

lemma settled_row_total: "config_ok c \<Longrightarrow> settled_row c now n v st e th r \<noteq> None"
  using backoff_ms_ok [of "backoff_seconds c" n]
  by (auto simp: settled_row_def Let_def config_ok_def split: attempt_verdict.splits outcome.splits)

lemma settled_row_None: "settled_row c now n v st e th r = None \<longleftrightarrow> settled_row c now n v st e th r2 = None"
  by (simp add: settled_row_def Let_def split: attempt_verdict.splits outcome.splits)

lemma update_rows_inbox: "inbox (update_rows P f w) = map (\<lambda>r. if P r then f r else r) (inbox w)"
  by (simp add: update_rows_def)

lemma arm_fields [simp]: "inbox (arm_no_later_than at w) = inbox w" "bucket (arm_no_later_than at w) = bucket w"
  by (simp_all add: arm_no_later_than_def split: option.split)

lemma armed: "\<exists>t. alarm_at (arm_no_later_than at w) = Some t \<and> t \<le> at"
  by (auto simp: arm_no_later_than_def split: option.split)

text \<open>A property of rows that the operations keep, told apart by how they change the table.\<close>

locale row_law =
  fixes Q :: "inbox_row \<Rightarrow> bool"
  assumes requeue_keeps: "Q r \<Longrightarrow> Q (requeued now r)"
begin

lemma table_map:
  assumes "table Q rows" and "\<And>r. r \<in> set rows \<Longrightarrow> P r \<Longrightarrow> Q r \<Longrightarrow> Q (f r)" and "\<And>r. P r \<Longrightarrow> q_id (f r) = q_id r"
  shows "table Q (map (\<lambda>r. if P r then f r else r) rows)"
proof -
  have "map q_id (map (\<lambda>r. if P r then f r else r) rows) = map q_id rows"
    using assms(3) by simp
  with assms(1,2) show ?thesis
    unfolding table_def by (auto simp: list_all_iff simp del: map_map)
qed

lemma table_filter: "table Q rows \<Longrightarrow> table Q (filter P rows)"
  by (auto simp: table_def list_all_iff distinct_map_filter)

lemma table_snoc: "table Q rows \<Longrightarrow> find_row (q_id r) rows = None \<Longrightarrow> Q r \<Longrightarrow> table Q (rows @ [r])"
  by (auto simp: table_def find_row_def find_None_iff)

lemma table_requeue: "table Q (inbox w) \<Longrightarrow> table Q (inbox (update_rows P (requeued now) w))"
  unfolding update_rows_inbox by (auto intro!: table_map requeue_keeps)

lemma table_enqueue:
  "table Q (inbox w) \<Longrightarrow> (\<And>at. Q (new_row e at)) \<Longrightarrow> table Q (inbox (fst (enqueue now cfg e w)))"
  by (auto simp: enqueue_def Let_def new_row_def [of e] intro!: table_snoc)

lemma table_retry: "table Q (inbox w) \<Longrightarrow> table Q (inbox (fst (retry now i w)))"
  by (auto simp: retry_def Let_def intro: table_requeue)

lemma table_retry_all: "table Q (inbox w) \<Longrightarrow> retry_all now st w = Some (w1, n) \<Longrightarrow> table Q (inbox w1)"
  by (auto simp: retry_all_def Let_def intro: table_requeue split: if_splits)

lemma table_delete: "table Q (inbox w) \<Longrightarrow> table Q (inbox (delete_rows P w))"
  by (simp add: delete_rows_def table_filter)

lemma table_purge: "table Q (inbox w) \<Longrightarrow> table Q (inbox (purge_rows ids w))"
  unfolding purge_rows_def by (induction ids arbitrary: w) (simp_all add: table_delete)

lemma table_settle:
  assumes "table Q (inbox w)" and "settle c now row v st e th w = Some w1"
    and "\<And>r r'. r \<in> set (inbox w) \<Longrightarrow> q_id r = q_id row \<Longrightarrow> Q r \<Longrightarrow>
      settled_row c now (q_attempts row + 1) v st e th r = Some r' \<Longrightarrow> Q r'"
  shows "table Q (inbox w1)"
proof -
  let ?S = "settled_row c now (q_attempts row + 1) v st e th"
  have some: "\<exists>r'. ?S r = Some r'" for r
    using assms(2) settled_row_None [of c now "q_attempts row + 1" v st e th r row]
    by (auto simp: settle_def Let_def split: if_splits)
  have w1: "w1 = update_rows (\<lambda>r. q_id r = q_id row \<and> q_status r = StPending) (\<lambda>r. the (?S r)) w"
    using assms(2) by (auto simp: settle_def Let_def split: if_splits)
  show ?thesis
    unfolding w1 update_rows_inbox
  proof (rule table_map [OF assms(1)])
    fix r assume "r \<in> set (inbox w)" "q_id r = q_id row \<and> q_status r = StPending" "Q r"
    with assms(3) [of r] some [of r] show "Q (the (?S r))" by auto
  next
    fix r
    show "q_id (the (?S r)) = q_id r" using some [of r] settled_row_cases by fastforce
  qed
qed

end

interpretation ok_rows: row_law row_ok
  by unfold_locales (rule row_ok_requeued)

text \<open>What the operations leave alone.\<close>

lemma enqueue_bucket [simp]: "bucket (fst (enqueue now cfg e w)) = bucket w"
  by (simp add: enqueue_def Let_def)

lemma update_rows_fields [simp]: "alarm_at (update_rows P f w) = alarm_at w" "bucket (update_rows P f w) = bucket w"
  by (simp_all add: update_rows_def)

lemma delete_rows_fields [simp]: "alarm_at (delete_rows P w) = alarm_at w" "bucket (delete_rows P w) = bucket w"
  "inbox (delete_rows P w) = filter (\<lambda>r. \<not> P r) (inbox w)"
  by (simp_all add: delete_rows_def)

lemma retry_bucket [simp]: "bucket (fst (retry now i w)) = bucket w"
  by (simp add: retry_def Let_def)

lemma retry_all_bucket: "retry_all now st w = Some (w1, n) \<Longrightarrow> bucket w1 = bucket w"
  by (auto simp: retry_all_def Let_def split: if_splits)

lemma purge_rows_fields [simp]: "alarm_at (purge_rows ids w) = alarm_at w" "bucket (purge_rows ids w) = bucket w"
  unfolding purge_rows_def by (induction ids arbitrary: w) simp_all

lemma purge_rows_inbox:
  "inbox (purge_rows ids w) = filter (\<lambda>r. \<not> (q_id r \<in> set ids \<and> q_purge_at r \<noteq> None)) (inbox w)"
  unfolding purge_rows_def
  by (induction ids arbitrary: w) (auto intro!: filter_cong)

lemma delete_objects_fields [simp]: "alarm_at (delete_objects ks w) = alarm_at w" "inbox (delete_objects ks w) = inbox w"
  "bucket (delete_objects ks w) k = (if k \<in> set ks then None else bucket w k)"
  by (simp_all add: delete_objects_def)

lemma settle_fields:
  assumes "settle c now row v st e th w = Some w1"
  shows "alarm_at w1 = alarm_at w" "bucket w1 = bucket w" "map q_id (inbox w1) = map q_id (inbox w)"
proof -
  let ?S = "settled_row c now (q_attempts row + 1) v st e th"
  have "q_id (the (?S r)) = q_id r" for r
    using assms settled_row_None [of c now "q_attempts row + 1" v st e th r row] settled_row_cases [of c now _ v st e th r]
    by (fastforce simp: settle_def Let_def split: if_splits)
  with assms show "alarm_at w1 = alarm_at w" "bucket w1 = bucket w" "map q_id (inbox w1) = map q_id (inbox w)"
    by (auto simp: settle_def Let_def update_rows_def split: if_splits)
qed

text \<open>Which ids there are after an operation.\<close>

definition ids :: "worker \<Rightarrow> jsstr set" where
  "ids w = q_id ` set (inbox w)"

lemma find_row_None: "find_row i (inbox w) = None \<longleftrightarrow> i \<notin> ids w"
  by (auto simp: find_row_def find_None_iff ids_def)

lemma ids_enqueue [simp]: "ids (fst (enqueue now cfg e w)) = insert (e_id e) (ids w)"
  using find_row_None [of "e_id e" w] by (auto simp: enqueue_def Let_def ids_def new_row_def)

lemma ids_requeue: "ids (update_rows P (requeued now) w) = ids w"
proof -
  have "map q_id (inbox (update_rows P (requeued now) w)) = map q_id (inbox w)"
    by (simp add: update_rows_inbox)
  then show ?thesis by (metis ids_def set_map)
qed

lemma ids_arm [simp]: "ids (arm_no_later_than at w) = ids w"
  by (simp add: ids_def)

lemma ids_retry [simp]: "ids (fst (retry now i w)) = ids w"
  by (simp add: retry_def Let_def ids_requeue)

lemma ids_retry_all: "retry_all now st w = Some (w1, n) \<Longrightarrow> ids w1 = ids w"
  by (auto simp: retry_all_def Let_def ids_requeue split: if_splits)

lemma ids_settle: "settle c now row v st e th w = Some w1 \<Longrightarrow> ids w1 = ids w"
  using settle_fields(3) [of c now row v st e th w w1] by (metis ids_def set_map)

end
