(* ===== verification/Machine.thy ===== *)
theory Machine
  imports Queue
begin

text \<open>
  The Worker as a transition system. A step is the code between two points where it waits for
  R2, for the network or for the next event, so that the steps of an arriving message, of an
  operator and of the delivery pass interleave as the platform lets them; the storage of the
  Durable Object itself does not yield. Ghost fields record what has happened.
\<close>

section \<open>States\<close>

text \<open>Where the alarm handler is.\<close>

datatype phase =
    Idle
  | Delivering worker_config "inbox_row list" \<comment> \<open>about to get the object of the first row\<close>
  | Fetching worker_config inbox_row bytes "inbox_row list" \<comment> \<open>the request is with Odoo\<close>
  | PurgeDue
  | Purging "(jsstr \<times> jsstr) list" bool \<comment> \<open>waiting for R2; whether the objects are gone\<close>
  | Rearming

record sys =
  wk :: worker
  phase_of :: phase
  healthy :: bool
  arriving :: "enqueue_input list" \<comment> \<open>stored in R2, the e-mail handler has not ended\<close>
  removing :: "(jsstr \<times> jsstr \<times> bool) list" \<comment> \<open>removals in flight; whether the object is gone\<close>
  used :: "jsstr set" \<comment> \<open>ghost: the ids there have been\<close>
  content :: "jsstr \<Rightarrow> bytes option" \<comment> \<open>ghost: what was stored under an id\<close>
  accepted :: "jsstr set" \<comment> \<open>ghost: \<open>enqueue\<close> has returned for the id\<close>
  handed :: "jsstr set" \<comment> \<open>ghost: Odoo has answered a delivery of the id with 2xx\<close>
  discarded :: "jsstr set" \<comment> \<open>ghost: an operator has asked to remove the id\<close>

text \<open>A deployment: the library's URL check, the version, the key prefix of its objects.\<close>

record deployment =
  dp_url_ok :: "jsstr \<Rightarrow> bool"
  dp_version :: pystr
  dp_prefix :: jsstr

definition start :: sys where
  "start = \<lparr>wk = \<lparr>inbox = [], alarm_at = None, bucket = (\<lambda>k. None)\<rparr>, phase_of = Idle, healthy = True,
     arriving = [], removing = [], used = {}, content = (\<lambda>i. None), accepted = {}, handed = {}, discarded = {}\<rparr>"

section \<open>Steps\<close>

text \<open>
  \<open>now\<close> is the clock a step reads. \<open>Mail\<close> is the e-mail handler up to the end of its \<open>put\<close>, with a
  fresh id; a handler that ends before has no effect. \<open>Enqueue\<close> is the call of the queue, which may be repeated;
  \<open>Leave\<close> is the end of the handler, normal or not. \<open>Fire\<close> to \<open>Rearm\<close> are the alarm handler, the
  \<open>Remove\<close> steps are \<open>remove\<close>; \<open>Restart\<close> is the loss of the object's memory in the middle of a
  pass, after which the platform runs the alarm again.
\<close>

datatype act =
    Mail jsstr nat jsstr jsstr bytes "jsstr option"
  | Enqueue enqueue_input nat worker_env
  | Leave enqueue_input
  | Fire nat worker_env
  | GetObject nat bool
  | Answer nat fetch_result
  | SelectExpired nat
  | ObjectsDeleted
  | RowsDeleted
  | PurgeFailed
  | Rearm nat
  | Restart nat
  | Retry jsstr nat
  | RetryAll inbox_status nat
  | RemoveBegin jsstr
  | RemoveObject jsstr jsstr
  | RemoveEnd jsstr jsstr
  | RemoveFailed "jsstr \<times> jsstr \<times> bool"

definition after_row :: "worker_config \<Rightarrow> inbox_row list \<Rightarrow> phase" where
  "after_row c rest = (if rest = [] then PurgeDue else Delivering c rest)"

text \<open>An exception of an attempt is caught and logged, the row stays as it is.\<close>

definition settle_or_log ::
  "worker_config \<Rightarrow> nat \<Rightarrow> inbox_row \<Rightarrow> attempt_verdict \<times> int option \<times> jsstr option \<times> jsstr option \<Rightarrow> worker \<Rightarrow> worker"
where
  "settle_or_log c now row j w =
     (case j of (v, st, e, th) \<Rightarrow> (case settle c now row v st e th w of None \<Rightarrow> w | Some w1 \<Rightarrow> w1))"

definition fire :: "deployment \<Rightarrow> nat \<Rightarrow> worker_env \<Rightarrow> sys \<Rightarrow> sys" where
  "fire D now env s =
     (let w = (wk s)\<lparr>alarm_at := None\<rparr>; due = due_rows now ALARM_BATCH (inbox w) in
      if due = [] then s\<lparr>wk := w, phase_of := PurgeDue\<rparr>
      else
        (case load_config (dp_url_ok D) env of
           None \<Rightarrow> s\<lparr>wk := w, phase_of := PurgeDue, healthy := False\<rparr>
         | Some c \<Rightarrow> s\<lparr>wk := w, phase_of := Delivering c due\<rparr>))"

definition missing_object :: "attempt_verdict \<times> int option \<times> jsstr option \<times> jsstr option" where
  "missing_object = (Hopeless, None, Some (lit ''stored message missing from R2''), None)"

definition get_object :: "deployment \<Rightarrow> nat \<Rightarrow> bool \<Rightarrow> worker_config \<Rightarrow> inbox_row \<Rightarrow> inbox_row list \<Rightarrow> sys \<Rightarrow> sys" where
  "get_object D now ok c row rest s =
     (if \<not> ok then s\<lparr>phase_of := after_row c rest\<rparr>
      else
        (case bucket (wk s) (q_r2_key row) of
           None \<Rightarrow> s\<lparr>wk := settle_or_log c now row missing_object (wk s), phase_of := after_row c rest\<rparr>
         | Some body \<Rightarrow>
             if request_headers (dp_version D) c row now body = None then s\<lparr>phase_of := after_row c rest\<rparr>
             else s\<lparr>phase_of := Fetching c row body rest\<rparr>))"

definition got_answer :: "nat \<Rightarrow> fetch_result \<Rightarrow> worker_config \<Rightarrow> inbox_row \<Rightarrow> inbox_row list \<Rightarrow> sys \<Rightarrow> sys" where
  "got_answer now f c row rest s =
     s\<lparr>wk := settle_or_log c now row (judge_answer f) (wk s), phase_of := after_row c rest,
       handed := (if fst (judge_answer f) = Classified Delivered then insert (q_id row) (handed s) else handed s)\<rparr>"

definition select_expired :: "nat \<Rightarrow> sys \<Rightarrow> sys" where
  "select_expired now s =
     (let exp = expired_rows now (inbox (wk s)) in
      s\<lparr>phase_of := (if exp = [] then Rearming else Purging exp False)\<rparr>)"

definition end_pass :: "nat \<Rightarrow> sys \<Rightarrow> sys" where
  "end_pass now s =
     s\<lparr>wk := (if healthy s then rearm (wk s) else (wk s)\<lparr>alarm_at := Some (now + ALARM_RETRY_MS)\<rparr>),
       phase_of := Idle, healthy := True\<rparr>"

definition restart :: "nat \<Rightarrow> sys \<Rightarrow> sys" where
  "restart now s =
     s\<lparr>wk := (wk s)\<lparr>alarm_at := (case alarm_at (wk s) of None \<Rightarrow> Some now | Some t \<Rightarrow> Some t)\<rparr>,
       phase_of := Idle, healthy := True\<rparr>"

fun act_step :: "deployment \<Rightarrow> sys \<Rightarrow> act \<Rightarrow> sys option" where
  "act_step D s (Mail i now from to raw mid) =
     (if i \<in> used s then None
      else
        (case handle_email (dp_prefix D) i now from to raw mid of
           Store k stored e \<Rightarrow>
             Some (s\<lparr>wk := (wk s)\<lparr>bucket := (bucket (wk s))(k := Some stored)\<rparr>, arriving := e # arriving s,
               used := insert i (used s), content := (content s)(i := Some stored)\<rparr>)
         | _ \<Rightarrow> None))"
| "act_step D s (Enqueue e now env) =
     (if e \<notin> set (arriving s) then None
      else Some (s\<lparr>wk := fst (enqueue now (load_config (dp_url_ok D) env) e (wk s)), accepted := insert (e_id e) (accepted s)\<rparr>))"
| "act_step D s (Leave e) =
     (if e \<notin> set (arriving s) then None else Some (s\<lparr>arriving := remove1 e (arriving s)\<rparr>))"
| "act_step D s (Fire now env) =
     (if phase_of s = Idle \<and> reached now (alarm_at (wk s)) then Some (fire D now env s) else None)"
| "act_step D s (GetObject now ok) =
     (case phase_of s of Delivering c (row # rest) \<Rightarrow> Some (get_object D now ok c row rest s) | _ \<Rightarrow> None)"
| "act_step D s (Answer now f) =
     (case phase_of s of Fetching c row body rest \<Rightarrow> Some (got_answer now f c row rest s) | _ \<Rightarrow> None)"
| "act_step D s (SelectExpired now) = (if phase_of s = PurgeDue then Some (select_expired now s) else None)"
| "act_step D s ObjectsDeleted =
     (case phase_of s of
        Purging exp False \<Rightarrow> Some (s\<lparr>wk := delete_objects (map snd exp) (wk s), phase_of := Purging exp True\<rparr>)
      | _ \<Rightarrow> None)"
| "act_step D s RowsDeleted =
     (case phase_of s of
        Purging exp True \<Rightarrow> Some (s\<lparr>wk := purge_rows (map fst exp) (wk s), phase_of := Rearming\<rparr>)
      | _ \<Rightarrow> None)"
| "act_step D s PurgeFailed =
     (case phase_of s of Purging exp b \<Rightarrow> Some (s\<lparr>phase_of := Rearming, healthy := False\<rparr>) | _ \<Rightarrow> None)"
| "act_step D s (Rearm now) = (if phase_of s = Rearming then Some (end_pass now s) else None)"
| "act_step D s (Restart now) = (if phase_of s = Idle then None else Some (restart now s))"
| "act_step D s (Retry i now) = Some (s\<lparr>wk := fst (retry now i (wk s))\<rparr>)"
| "act_step D s (RetryAll st now) = map_option (\<lambda>(w, n). s\<lparr>wk := w\<rparr>) (retry_all now st (wk s))"
| "act_step D s (RemoveBegin i) =
     map_option (\<lambda>k. s\<lparr>removing := (i, k, False) # removing s, discarded := insert i (discarded s)\<rparr>) (remove_key i (wk s))"
| "act_step D s (RemoveObject i k) =
     (if (i, k, False) \<in> set (removing s)
      then Some (s\<lparr>wk := delete_objects [k] (wk s), removing := (i, k, True) # remove1 (i, k, False) (removing s)\<rparr>)
      else None)"
| "act_step D s (RemoveEnd i k) =
     (if (i, k, True) \<in> set (removing s)
      then Some (s\<lparr>wk := remove_row i (wk s), removing := remove1 (i, k, True) (removing s)\<rparr>)
      else None)"
| "act_step D s (RemoveFailed x) =
     (if x \<in> set (removing s) then Some (s\<lparr>removing := remove1 x (removing s)\<rparr>) else None)"

text \<open>The states a Worker can be in, and the run of a list of steps.\<close>

inductive reachable :: "deployment \<Rightarrow> sys \<Rightarrow> bool" for D where
  reach_start: "reachable D start"
| reach_step: "reachable D s \<Longrightarrow> act_step D s a = Some s' \<Longrightarrow> reachable D s'"

fun run_acts :: "deployment \<Rightarrow> act list \<Rightarrow> sys \<Rightarrow> sys option" where
  "run_acts D [] s = Some s"
| "run_acts D (a # as) s = (case act_step D s a of None \<Rightarrow> None | Some s1 \<Rightarrow> run_acts D as s1)"

lemma reachable_run: "reachable D s \<Longrightarrow> run_acts D as s = Some s' \<Longrightarrow> reachable D s'"
  by (induction "as" arbitrary: s) (auto split: option.splits intro: reach_step)

section \<open>The invariant\<close>

text \<open>A row of the system: its object's key follows from its id, and a delivered row has been delivered.\<close>

definition known :: "deployment \<Rightarrow> jsstr set \<Rightarrow> jsstr \<Rightarrow> jsstr \<Rightarrow> bool" where
  "known D U i k \<longleftrightarrow> i \<in> U \<and> k = object_key (dp_prefix D) i"

definition sys_row :: "deployment \<Rightarrow> jsstr set \<Rightarrow> jsstr set \<Rightarrow> inbox_row \<Rightarrow> bool" where
  "sys_row D U H r \<longleftrightarrow> row_ok r \<and> known D U (q_id r) (q_r2_key r) \<and> (q_status r = StDelivered \<longrightarrow> q_id r \<in> H)"

interpretation sys_rows: row_law "sys_row D U H" for D U H
  by unfold_locales (simp add: sys_row_def row_ok_requeued)

definition inv_rows :: "deployment \<Rightarrow> sys \<Rightarrow> bool" where
  "inv_rows D s \<longleftrightarrow> table (sys_row D (used s) (handed s)) (inbox (wk s))"

definition inv_flight :: "deployment \<Rightarrow> sys \<Rightarrow> bool" where
  "inv_flight D s \<longleftrightarrow> (\<forall>e \<in> set (arriving s). known D (used s) (e_id e) (e_r2_key e))
     \<and> (\<forall>(i, k, b) \<in> set (removing s). k = object_key (dp_prefix D) i \<and> i \<in> discarded s)"

definition inv_phase :: "deployment \<Rightarrow> sys \<Rightarrow> bool" where
  "inv_phase D s \<longleftrightarrow>
     (case phase_of s of
        Delivering c rows \<Rightarrow> config_ok c \<and> rows \<noteq> [] \<and> (\<forall>r \<in> set rows. known D (used s) (q_id r) (q_r2_key r))
      | Fetching c r body rows \<Rightarrow> config_ok c \<and> content s (q_id r) = Some body
          \<and> (\<forall>x \<in> set (r # rows). known D (used s) (q_id x) (q_r2_key x))
      | Purging exp b \<Rightarrow> (\<forall>(i, k) \<in> set exp. k = object_key (dp_prefix D) i \<and> i \<in> handed s)
      | _ \<Rightarrow> True)"

definition inv_content :: "deployment \<Rightarrow> sys \<Rightarrow> bool" where
  "inv_content D s \<longleftrightarrow> (\<forall>i. i \<in> used s \<longleftrightarrow> content s i \<noteq> None)
     \<and> (\<forall>i \<in> used s. bucket (wk s) (object_key (dp_prefix D) i) = content s i
          \<or> (bucket (wk s) (object_key (dp_prefix D) i) = None \<and> (i \<in> handed s \<or> i \<in> discarded s)))"

definition inv_kept :: "sys \<Rightarrow> bool" where
  "inv_kept s \<longleftrightarrow> accepted s \<subseteq> ids (wk s) \<union> handed s \<union> discarded s"

definition inv_alarm :: "sys \<Rightarrow> bool" where
  "inv_alarm s \<longleftrightarrow> (phase_of s = Idle \<and> next_times (inbox (wk s)) \<noteq> [] \<longrightarrow> alarm_at (wk s) \<noteq> None)"

lemmas inv_defs = inv_rows_def inv_flight_def inv_phase_def inv_content_def inv_kept_def inv_alarm_def

definition sys_inv :: "deployment \<Rightarrow> sys \<Rightarrow> bool" where
  "sys_inv D s \<longleftrightarrow> inv_rows D s \<and> inv_flight D s \<and> inv_phase D s \<and> inv_content D s \<and> inv_kept s \<and> inv_alarm s"

section \<open>Every step keeps it\<close>

lemma object_key_inj: "object_key p i = object_key p j \<longleftrightarrow> i = j"
  by (simp add: object_key_def)

lemma sys_row_mono: "sys_row D U H r \<Longrightarrow> U \<subseteq> U' \<Longrightarrow> H \<subseteq> H' \<Longrightarrow> sys_row D U' H' r"
  by (auto simp: sys_row_def known_def)

lemma table_mono: "table Q rows \<Longrightarrow> (\<And>r. Q r \<Longrightarrow> Q' r) \<Longrightarrow> table Q' rows"
  by (auto simp: table_def list_all_iff)

lemma table_sys_row_mono:
  "table (sys_row D U H) rows \<Longrightarrow> U \<subseteq> U' \<Longrightarrow> H \<subseteq> H' \<Longrightarrow> table (sys_row D U' H') rows"
  by (erule table_mono) (erule (2) sys_row_mono)

lemma due_rows_subset: "set (due_rows now batch rows) \<subseteq> {r \<in> set rows. q_status r = StPending \<and> reached now (q_next_attempt_at r)}"
  unfolding due_rows_def by (auto dest!: in_set_takeD)

lemma expired_rows_subset:
  "set (expired_rows now rows) \<subseteq> (\<lambda>r. (q_id r, q_r2_key r)) ` {r \<in> set rows. reached now (q_purge_at r)}"
  unfolding expired_rows_def by (auto dest!: in_set_takeD)

lemma next_times_Nil:
  "next_times rows = [] \<longleftrightarrow> (\<forall>r \<in> set rows. (q_status r = StPending \<longrightarrow> q_next_attempt_at r = None) \<and> q_purge_at r = None)"
  by (induction rows) (auto simp: next_times_def List.map_filter_def)

lemma next_times_subset: "set rows \<subseteq> set rows' \<Longrightarrow> next_times rows \<noteq> [] \<Longrightarrow> next_times rows' \<noteq> []"
  by (auto simp: next_times_Nil)

lemma sys_inv_start: "sys_inv D start"
  by (simp add: sys_inv_def inv_defs start_def table_def ids_def next_times_def List.map_filter_def)

text \<open>The arriving message.\<close>

lemma handle_email_Store:
  assumes "handle_email p i now from to raw mid = Store k stored e"
  shows "k = object_key p i \<and> e_id e = i \<and> e_r2_key e = k \<and> e_from e = from \<and> e_to e = to
    \<and> prepend_headers raw (envelope_headers from to) = Inr stored"
  using assms by (auto simp: handle_email_def split: sum.splits if_splits)

lemma inv_mail:
  assumes "sys_inv D s" and "act_step D s (Mail i now from to raw mid) = Some s'"
  shows "sys_inv D s'"
proof -
  from assms(2) obtain k stored e where i: "i \<notin> used s"
    and h: "handle_email (dp_prefix D) i now from to raw mid = Store k stored e"
    and s': "s' = s\<lparr>wk := (wk s)\<lparr>bucket := (bucket (wk s))(k := Some stored)\<rparr>, arriving := e # arriving s,
               used := insert i (used s), content := (content s)(i := Some stored)\<rparr>"
    by (auto split: if_splits email_result.splits)
  note e = handle_email_Store [OF h]
  have "inv_rows D s'" using assms(1) by (auto simp: sys_inv_def inv_rows_def s' intro: table_sys_row_mono)
  moreover have "inv_flight D s'" using assms(1) e by (auto simp: sys_inv_def inv_flight_def s' known_def)
  moreover have "inv_phase D s'"
    using assms(1) i by (auto simp: sys_inv_def inv_phase_def s' known_def split: phase.splits)
  moreover have "inv_content D s'"
    using assms(1) e i by (auto simp: sys_inv_def inv_content_def s' object_key_inj)
  moreover have "inv_kept s' \<and> inv_alarm s'" using assms(1) by (simp add: sys_inv_def inv_kept_def inv_alarm_def s' ids_def)
  ultimately show ?thesis by (simp add: sys_inv_def)
qed

text \<open>The pass: the worker, the place, and what has been delivered may change.\<close>

lemma sys_inv_pass:
  assumes "sys_inv D s" and "handed s \<subseteq> H" and "table (sys_row D (used s) H) (inbox w)"
    and "\<And>i. i \<in> used s \<Longrightarrow> bucket w (object_key (dp_prefix D) i) = bucket (wk s) (object_key (dp_prefix D) i)
        \<or> bucket w (object_key (dp_prefix D) i) = None \<and> i \<in> H"
    and "ids (wk s) \<subseteq> ids w \<union> H" and "inv_phase D (s\<lparr>phase_of := p, handed := H\<rparr>)"
    and "p = Idle \<Longrightarrow> next_times (inbox w) \<noteq> [] \<Longrightarrow> alarm_at w \<noteq> None"
  shows "sys_inv D (s\<lparr>wk := w, phase_of := p, healthy := h, handed := H\<rparr>)"
proof -
  let ?s = "s\<lparr>wk := w, phase_of := p, healthy := h, handed := H\<rparr>"
  have "inv_rows D ?s" using assms(3) by (simp add: inv_rows_def)
  moreover have "inv_flight D ?s" using assms(1) by (simp add: sys_inv_def inv_flight_def)
  moreover have "inv_phase D ?s" using assms(6) by (simp add: inv_phase_def split: phase.splits)
  moreover have "inv_content D ?s"
  proof -
    have "bucket w (object_key (dp_prefix D) i) = content s i
        \<or> bucket w (object_key (dp_prefix D) i) = None \<and> (i \<in> H \<or> i \<in> discarded s)" if "i \<in> used s" for i
      using assms(1,2) assms(4) [OF that] that unfolding sys_inv_def inv_content_def by (metis subsetD)
    with assms(1) show ?thesis by (simp add: sys_inv_def inv_content_def)
  qed
  moreover have "inv_kept ?s" using assms(1,2,5) by (auto simp: sys_inv_def inv_kept_def)
  moreover have "inv_alarm ?s" using assms(7) by (simp add: inv_alarm_def)
  ultimately show ?thesis by (simp add: sys_inv_def)
qed

lemma sys_inv_rows: "sys_inv D s \<Longrightarrow> table (sys_row D (used s) (handed s)) (inbox (wk s))"
  by (simp add: sys_inv_def inv_rows_def)

lemma sys_inv_known: "sys_inv D s \<Longrightarrow> r \<in> set (inbox (wk s)) \<Longrightarrow> known D (used s) (q_id r) (q_r2_key r)"
  using sys_inv_rows [of D s] by (auto simp: table_def list_all_iff sys_row_def)

lemma inv_after_row:
  "config_ok c \<Longrightarrow> \<forall>r \<in> set rest. known D (used s) (q_id r) (q_r2_key r) \<Longrightarrow> inv_phase D (s\<lparr>phase_of := after_row c rest, handed := H\<rparr>)"
  by (simp add: inv_phase_def after_row_def)

lemma inv_fire:
  assumes "sys_inv D s"
  shows "sys_inv D (fire D now env s)"
proof -
  let ?w = "(wk s)\<lparr>alarm_at := None\<rparr>"
  let ?due = "due_rows now ALARM_BATCH (inbox ?w)"
  have pass: "sys_inv D (s\<lparr>wk := ?w, phase_of := p, healthy := h, handed := handed s\<rparr>)"
    if "inv_phase D (s\<lparr>phase_of := p, handed := handed s\<rparr>)" "p \<noteq> Idle" for p h
    using sys_inv_rows [OF assms] that by (intro sys_inv_pass [OF assms]) (simp_all add: ids_def)
  have known: "\<forall>r \<in> set ?due. known D (used s) (q_id r) (q_r2_key r)"
    using due_rows_subset [of now ALARM_BATCH "inbox (wk s)"] sys_inv_known [OF assms] by fastforce
  consider "?due = []" | "?due \<noteq> []" "load_config (dp_url_ok D) env = None"
    | c where "?due \<noteq> []" "load_config (dp_url_ok D) env = Some c" by fastforce
  then show ?thesis
  proof cases
    case 1
    with pass [of PurgeDue "healthy s"] show ?thesis by (simp add: fire_def inv_phase_def)
  next
    case 2
    with pass [of PurgeDue False] show ?thesis by (simp add: fire_def inv_phase_def)
  next
    case 3
    with pass [of "Delivering c ?due" "healthy s"] known load_config_ok [OF 3(2)] show ?thesis
      by (simp add: fire_def inv_phase_def)
  qed
qed

lemma inv_settle:
  assumes "sys_inv D s" and "handed s \<subseteq> H" and "fst j = Classified Delivered \<Longrightarrow> q_id row \<in> H"
  shows "table (sys_row D (used s) H) (inbox (settle_or_log c now row j (wk s)))"
    "bucket (settle_or_log c now row j (wk s)) = bucket (wk s)" "ids (settle_or_log c now row j (wk s)) = ids (wk s)"
proof -
  obtain v st e th where j: "j = (v, st, e, th)" by (cases j)
  have t: "table (sys_row D (used s) H) (inbox (wk s))"
    using table_sys_row_mono [OF sys_inv_rows [OF assms(1)]] assms(2) by blast
  have "table (sys_row D (used s) H) (inbox w1)" if s: "settle c now row v st e th (wk s) = Some w1" for w1
  proof (rule sys_rows.table_settle [OF t s])
    fix r r'
    assume "q_id r = q_id row" "sys_row D (used s) H r" and r': "settled_row c now (q_attempts row + 1) v st e th r = Some r'"
    with settled_row_cases [OF r'] row_ok_settled [OF r'] settled_delivered [OF r'] assms(3) j
    show "sys_row D (used s) H r'" by (auto simp: sys_row_def)
  qed
  with t show "table (sys_row D (used s) H) (inbox (settle_or_log c now row j (wk s)))"
    by (simp add: settle_or_log_def j split: option.split)
  show "bucket (settle_or_log c now row j (wk s)) = bucket (wk s)"
    using settle_fields(2) by (simp add: settle_or_log_def j split: option.split)
  show "ids (settle_or_log c now row j (wk s)) = ids (wk s)"
    using ids_settle by (simp add: settle_or_log_def j split: option.split)
qed

lemma after_row_not_Idle [simp]: "after_row c rest \<noteq> Idle"
  by (simp add: after_row_def)

lemma inv_get_object:
  assumes "sys_inv D s" and "phase_of s = Delivering c (row # rest)"
  shows "sys_inv D (get_object D now ok c row rest s)"
proof -
  have ph: "config_ok c" "\<forall>r \<in> set (row # rest). known D (used s) (q_id r) (q_r2_key r)"
    using assms by (auto simp: sys_inv_def inv_phase_def)
  have next_row: "inv_phase D (s\<lparr>phase_of := after_row c rest, handed := handed s\<rparr>)"
    using ph by (intro inv_after_row) simp_all
  have skip: "sys_inv D (s\<lparr>wk := wk s, phase_of := after_row c rest, healthy := healthy s, handed := handed s\<rparr>)"
    using sys_inv_rows [OF assms(1)] next_row by (intro sys_inv_pass [OF assms(1)]) simp_all
  have missing: "sys_inv D (s\<lparr>wk := settle_or_log c now row missing_object (wk s), phase_of := after_row c rest,
      healthy := healthy s, handed := handed s\<rparr>)"
    using inv_settle [OF assms(1) subset_refl, of missing_object row c now] next_row
    by (intro sys_inv_pass [OF assms(1)]) (simp_all add: missing_object_def)
  have fetch: "sys_inv D (s\<lparr>wk := wk s, phase_of := Fetching c row body rest, healthy := healthy s, handed := handed s\<rparr>)"
    if b: "bucket (wk s) (q_r2_key row) = Some body" for body
  proof (intro sys_inv_pass [OF assms(1)])
    have "content s (q_id row) = Some body"
      using b ph(2) assms(1) unfolding sys_inv_def inv_content_def known_def by fastforce
    with ph show "inv_phase D (s\<lparr>phase_of := Fetching c row body rest, handed := handed s\<rparr>)"
      by (simp add: inv_phase_def)
  qed (use sys_inv_rows [OF assms(1)] in simp_all)
  show ?thesis using skip missing fetch by (simp add: get_object_def split: option.split)
qed

lemma inv_got_answer:
  assumes "sys_inv D s" and "phase_of s = Fetching c row body rest"
  shows "sys_inv D (got_answer now f c row rest s)"
proof -
  let ?H = "if fst (judge_answer f) = Classified Delivered then insert (q_id row) (handed s) else handed s"
  have ph: "config_ok c" "\<forall>r \<in> set (row # rest). known D (used s) (q_id r) (q_r2_key r)"
    using assms by (auto simp: sys_inv_def inv_phase_def)
  have H: "handed s \<subseteq> ?H" by auto
  have "sys_inv D (s\<lparr>wk := settle_or_log c now row (judge_answer f) (wk s), phase_of := after_row c rest,
      healthy := healthy s, handed := ?H\<rparr>)"
    using inv_settle [OF assms(1) H, of "judge_answer f" row c now] H ph inv_after_row [of c rest D s ?H]
    by (intro sys_inv_pass [OF assms(1) H]) simp_all
  then show ?thesis by (simp add: got_answer_def)
qed

lemma inv_purge:
  assumes "sys_inv D s"
  shows "act_step D s (SelectExpired now) = Some s' \<Longrightarrow> sys_inv D s'"
    and "act_step D s ObjectsDeleted = Some s' \<Longrightarrow> sys_inv D s'"
    and "act_step D s RowsDeleted = Some s' \<Longrightarrow> sys_inv D s'"
    and "act_step D s PurgeFailed = Some s' \<Longrightarrow> sys_inv D s'"
proof -
  note rows = sys_inv_rows [OF assms]
  have stay: "sys_inv D (s\<lparr>wk := wk s, phase_of := p, healthy := h, handed := handed s\<rparr>)"
    if "inv_phase D (s\<lparr>phase_of := p, handed := handed s\<rparr>)" "p \<noteq> Idle" for p h
    using rows that by (intro sys_inv_pass [OF assms]) simp_all
  have gone: "k = object_key (dp_prefix D) i \<and> i \<in> handed s" if "phase_of s = Purging exp b" "(i, k) \<in> set exp" for i k exp b
    using assms that by (auto simp: sys_inv_def inv_phase_def)
  show "sys_inv D s'" if a: "act_step D s (SelectExpired now) = Some s'"
  proof -
    have "k = object_key (dp_prefix D) i \<and> i \<in> handed s" if m: "(i, k) \<in> set (expired_rows now (inbox (wk s)))" for i k
    proof -
      from m expired_rows_subset [of now "inbox (wk s)"] obtain r where r: "r \<in> set (inbox (wk s))" "i = q_id r" "k = q_r2_key r"
        "reached now (q_purge_at r)" by blast
      then have "sys_row D (used s) (handed s) r" using rows by (simp add: table_def list_all_iff)
      with r(2-4) show ?thesis by (auto simp: sys_row_def row_ok_def known_def reached_def split: option.splits)
    qed
    then have "inv_phase D (s\<lparr>phase_of := if expired_rows now (inbox (wk s)) = [] then Rearming
        else Purging (expired_rows now (inbox (wk s))) False, handed := handed s\<rparr>)"
      by (auto simp: inv_phase_def)
    from stay [OF this, of "healthy s"] a show ?thesis by (auto simp: select_expired_def Let_def split: if_splits)
  qed
  show "sys_inv D s'" if "act_step D s ObjectsDeleted = Some s'"
  proof -
    from that obtain exp where p: "phase_of s = Purging exp False"
      and s': "s' = s\<lparr>wk := delete_objects (map snd exp) (wk s), phase_of := Purging exp True\<rparr>"
      by (auto split: phase.splits bool.splits)
    have keys: "i \<in> handed s" if "object_key (dp_prefix D) i \<in> snd ` set exp" for i
    proof -
      from that obtain j where "(j, object_key (dp_prefix D) i) \<in> set exp" by auto
      from gone [OF p this] show ?thesis by (simp add: object_key_inj)
    qed
    have "sys_inv D (s\<lparr>wk := delete_objects (map snd exp) (wk s), phase_of := Purging exp True,
        healthy := healthy s, handed := handed s\<rparr>)"
    proof (intro sys_inv_pass [OF assms])
      fix i
      show "bucket (delete_objects (map snd exp) (wk s)) (object_key (dp_prefix D) i) = bucket (wk s) (object_key (dp_prefix D) i)
          \<or> bucket (delete_objects (map snd exp) (wk s)) (object_key (dp_prefix D) i) = None \<and> i \<in> handed s"
        using keys [of i] by simp
      show "inv_phase D (s\<lparr>phase_of := Purging exp True, handed := handed s\<rparr>)"
        using gone [OF p] by (auto simp: inv_phase_def)
    qed (use rows in \<open>simp_all add: ids_def\<close>)
    then show ?thesis by (simp add: s')
  qed
  show "sys_inv D s'" if "act_step D s RowsDeleted = Some s'"
  proof -
    from that obtain exp where p: "phase_of s = Purging exp True"
      and s': "s' = s\<lparr>wk := purge_rows (map fst exp) (wk s), phase_of := Rearming\<rparr>"
      by (auto split: phase.splits bool.splits)
    have "sys_inv D (s\<lparr>wk := purge_rows (map fst exp) (wk s), phase_of := Rearming, healthy := healthy s, handed := handed s\<rparr>)"
    proof (intro sys_inv_pass [OF assms])
      show "ids (wk s) \<subseteq> ids (purge_rows (map fst exp) (wk s)) \<union> handed s"
        using gone [OF p] by (auto simp: ids_def purge_rows_inbox)
    qed (use rows in \<open>simp_all add: sys_rows.table_purge inv_phase_def\<close>)
    then show ?thesis by (simp add: s')
  qed
  show "sys_inv D s'" if "act_step D s PurgeFailed = Some s'"
    using that stay [of Rearming False] by (auto simp: inv_phase_def split: phase.splits)
qed

lemma inv_end_pass: "sys_inv D s \<Longrightarrow> sys_inv D (end_pass now s)"
proof -
  assume s: "sys_inv D s"
  have "sys_inv D (s\<lparr>wk := (if healthy s then rearm (wk s) else (wk s)\<lparr>alarm_at := Some (now + ALARM_RETRY_MS)\<rparr>),
       phase_of := Idle, healthy := True, handed := handed s\<rparr>)"
    using sys_inv_rows [OF s] by (intro sys_inv_pass [OF s]) (auto simp: rearm_def ids_def inv_phase_def Let_def)
  then show ?thesis by (simp add: end_pass_def)
qed

lemma inv_restart: "sys_inv D s \<Longrightarrow> sys_inv D (restart now s)"
proof -
  assume s: "sys_inv D s"
  have "sys_inv D (s\<lparr>wk := (wk s)\<lparr>alarm_at := (case alarm_at (wk s) of None \<Rightarrow> Some now | Some t \<Rightarrow> Some t)\<rparr>,
       phase_of := Idle, healthy := True, handed := handed s\<rparr>)"
    using sys_inv_rows [OF s] by (intro sys_inv_pass [OF s]) (auto simp: ids_def inv_phase_def split: option.split)
  then show ?thesis by (simp add: restart_def)
qed

text \<open>Outside the pass only the worker and the books of the handlers change.\<close>

lemma sys_inv_worker:
  assumes "sys_inv D s" and "table (sys_row D (used s) (handed s)) (inbox w)" and "bucket w = bucket (wk s)"
    and "ids (wk s) \<subseteq> ids w" and "next_times (inbox w) \<noteq> [] \<Longrightarrow> phase_of s = Idle \<Longrightarrow> alarm_at w \<noteq> None"
  shows "sys_inv D (s\<lparr>wk := w\<rparr>)"
proof -
  have "inv_phase D s" using assms(1) by (simp add: sys_inv_def)
  then have "sys_inv D (s\<lparr>wk := w, phase_of := phase_of s, healthy := healthy s, handed := handed s\<rparr>)"
    using assms by (intro sys_inv_pass [OF assms(1)]) auto
  then show ?thesis by simp
qed

lemma sys_inv_alarm: "sys_inv D s \<Longrightarrow> phase_of s = Idle \<Longrightarrow> next_times (inbox (wk s)) \<noteq> [] \<Longrightarrow> alarm_at (wk s) \<noteq> None"
  by (simp add: sys_inv_def inv_alarm_def)

lemma inv_retry:
  assumes "sys_inv D s"
  shows "sys_inv D (s\<lparr>wk := fst (retry now i (wk s))\<rparr>)"
    and "retry_all now st (wk s) = Some (w, n) \<Longrightarrow> sys_inv D (s\<lparr>wk := w\<rparr>)"
proof -
  note rows = sys_inv_rows [OF assms]
  have "alarm_at (fst (retry now i (wk s))) \<noteq> None"
    if "next_times (inbox (fst (retry now i (wk s)))) \<noteq> []" "phase_of s = Idle"
    using that sys_inv_alarm [OF assms] armed [of now] by (auto simp: retry_def Let_def split: if_splits)
  then show "sys_inv D (s\<lparr>wk := fst (retry now i (wk s))\<rparr>)"
    using rows by (intro sys_inv_worker [OF assms]) (simp_all add: sys_rows.table_retry)
  assume r: "retry_all now st (wk s) = Some (w, n)"
  have "inbox w = inbox (wk s) \<and> alarm_at w = alarm_at (wk s) \<or> alarm_at w \<noteq> None"
  proof (cases "filter (\<lambda>r. q_status r = st) (inbox (wk s)) = []")
    case True
    then have "map (\<lambda>r. if q_status r = st then requeued now r else r) (inbox (wk s)) = inbox (wk s)"
      by (intro map_idI) (auto simp: filter_empty_conv)
    with True r show ?thesis by (auto simp: retry_all_def Let_def update_rows_inbox split: if_splits)
  next
    case False
    with r armed [of now] show ?thesis by (auto simp: retry_all_def Let_def split: if_splits)
  qed
  with rows sys_inv_alarm [OF assms] show "sys_inv D (s\<lparr>wk := w\<rparr>)"
    using ids_retry_all [OF r] retry_all_bucket [OF r] sys_rows.table_retry_all [OF rows r]
    by (intro sys_inv_worker [OF assms]) auto
qed

lemma inv_phase_cong:
  "inv_phase D s \<Longrightarrow> phase_of s' = phase_of s \<Longrightarrow> used s' = used s \<Longrightarrow> content s' = content s \<Longrightarrow> handed s' = handed s
     \<Longrightarrow> inv_phase D s'"
  by (cases "phase_of s") (simp_all add: inv_phase_def)

lemma sys_inv_books:
  assumes "sys_inv D s" and "set A \<subseteq> set (arriving s)" and "set R \<subseteq> set (removing s)"
  shows "sys_inv D (s\<lparr>arriving := A, removing := R\<rparr>)"
proof -
  have "inv_phase D (s\<lparr>arriving := A, removing := R\<rparr>)"
    by (rule inv_phase_cong [of D s]) (use assms(1) in \<open>simp_all add: sys_inv_def\<close>)
  moreover have "inv_flight D (s\<lparr>arriving := A, removing := R\<rparr>)"
    using assms unfolding sys_inv_def inv_flight_def by auto
  ultimately show ?thesis
    using assms(1) by (simp add: sys_inv_def inv_rows_def inv_content_def inv_kept_def inv_alarm_def)
qed

lemma inv_enqueue:
  assumes "sys_inv D s" and "e \<in> set (arriving s)"
  shows "sys_inv D (s\<lparr>wk := fst (enqueue now cfg e (wk s)), accepted := insert (e_id e) (accepted s)\<rparr>)"
proof -
  let ?w = "fst (enqueue now cfg e (wk s))"
  have k: "known D (used s) (e_id e) (e_r2_key e)" using assms by (simp add: sys_inv_def inv_flight_def)
  have "sys_row D (used s) (handed s) (new_row e at)" for at
    using k row_ok_new [of e at] by (simp add: sys_row_def new_row_def)
  then have t: "table (sys_row D (used s) (handed s)) (inbox ?w)"
    using sys_rows.table_enqueue [OF sys_inv_rows [OF assms(1)]] by blast
  have a: "alarm_at ?w \<noteq> None" if "next_times (inbox ?w) \<noteq> []" "phase_of s = Idle"
    using that sys_inv_alarm [OF assms(1)] armed by (auto simp: enqueue_def Let_def split: if_splits)
  have "sys_inv D (s\<lparr>wk := ?w\<rparr>)"
    using t a by (intro sys_inv_worker [OF assms(1)]) auto
  then show ?thesis by (simp add: sys_inv_def inv_defs ids_enqueue [unfolded ids_def] ids_def split: phase.splits)
qed

lemma inv_remove:
  assumes "sys_inv D s"
  shows "act_step D s (RemoveBegin i) = Some s' \<Longrightarrow> sys_inv D s'"
    and "act_step D s (RemoveObject i k) = Some s' \<Longrightarrow> sys_inv D s'"
    and "act_step D s (RemoveEnd i k) = Some s' \<Longrightarrow> sys_inv D s'"
    and "act_step D s (RemoveFailed x) = Some s' \<Longrightarrow> sys_inv D s'"
proof -
  show "sys_inv D s'" if a: "act_step D s (RemoveBegin i) = Some s'"
  proof -
    from a obtain r where "find_row i (inbox (wk s)) = Some r"
      and s': "s' = s\<lparr>removing := (i, q_r2_key r, False) # removing s, discarded := insert i (discarded s)\<rparr>"
      by (auto simp: remove_key_def)
    then have "r \<in> set (inbox (wk s))" "q_id r = i" by (auto simp: find_row_def find_Some_iff)
    with sys_inv_known [OF assms] have "q_r2_key r = object_key (dp_prefix D) i" by (auto simp: known_def)
    with assms show ?thesis by (auto simp: sys_inv_def inv_defs s' split: phase.splits)
  qed
  show "sys_inv D s'" if a: "act_step D s (RemoveObject i k) = Some s'"
  proof -
    from a have m: "(i, k, False) \<in> set (removing s)" and s': "s' = s\<lparr>wk := delete_objects [k] (wk s),
        removing := (i, k, True) # remove1 (i, k, False) (removing s)\<rparr>" by (auto split: if_splits)
    have k: "k = object_key (dp_prefix D) i" "i \<in> discarded s" using assms m by (auto simp: sys_inv_def inv_flight_def)
    have "inv_flight D s'"
      using assms k by (auto simp: sys_inv_def inv_flight_def s' dest!: set_remove1_subset [THEN subsetD])
    moreover have "inv_content D s'"
      using assms k by (auto simp: sys_inv_def inv_content_def s' object_key_inj)
    moreover have "inv_phase D s'" by (rule inv_phase_cong [of D s]) (use assms in \<open>simp_all add: sys_inv_def s'\<close>)
    ultimately show ?thesis using assms by (simp add: sys_inv_def inv_rows_def inv_kept_def inv_alarm_def s' ids_def)
  qed
  show "sys_inv D s'" if a: "act_step D s (RemoveEnd i k) = Some s'"
  proof -
    from a have m: "(i, k, True) \<in> set (removing s)" and s': "s' = s\<lparr>wk := remove_row i (wk s),
        removing := remove1 (i, k, True) (removing s)\<rparr>" by (auto split: if_splits)
    have k: "i \<in> discarded s" using assms m by (auto simp: sys_inv_def inv_flight_def)
    have "inv_rows D s'" using sys_inv_rows [OF assms] by (simp add: inv_rows_def s' remove_row_def sys_rows.table_filter)
    moreover have "inv_flight D s'"
      using assms by (auto simp: sys_inv_def inv_flight_def s' dest!: set_remove1_subset [THEN subsetD])
    moreover have "inv_kept s'" using assms k by (auto simp: sys_inv_def inv_kept_def s' remove_row_def ids_def)
    moreover have "inv_alarm s'"
      using assms next_times_subset [of "filter (\<lambda>r. q_id r \<noteq> i) (inbox (wk s))" "inbox (wk s)"]
      by (auto simp: sys_inv_def inv_alarm_def s' remove_row_def)
    moreover have "inv_phase D s'" by (rule inv_phase_cong [of D s]) (use assms in \<open>simp_all add: sys_inv_def s'\<close>)
    ultimately show ?thesis using assms by (simp add: sys_inv_def inv_content_def s' remove_row_def)
  qed
  show "sys_inv D s'" if "act_step D s (RemoveFailed x) = Some s'"
    using that sys_inv_books [OF assms subset_refl set_remove1_subset [of x]] by (simp split: if_splits)
qed

lemma sys_inv_step:
  assumes "sys_inv D s" and "act_step D s a = Some s'"
  shows "sys_inv D s'"
proof (cases a)
  case (Mail i now sender rcpt raw mid)
  with assms inv_mail show ?thesis by blast
next
  case (Enqueue e now env)
  with assms inv_enqueue show ?thesis by (auto split: if_splits)
next
  case (Leave e)
  with assms sys_inv_books [OF assms(1) set_remove1_subset subset_refl] show ?thesis by (auto split: if_splits)
next
  case (Fire now env)
  with assms inv_fire show ?thesis by (auto split: if_splits)
next
  case (GetObject now ok)
  with assms inv_get_object show ?thesis by (auto split: phase.splits list.splits)
next
  case (Answer now f)
  with assms inv_got_answer show ?thesis by (auto split: phase.splits)
next
  case (Rearm now)
  with assms inv_end_pass show ?thesis by (auto split: if_splits)
next
  case (Restart now)
  with assms inv_restart show ?thesis by (auto split: if_splits)
next
  case (Retry i now)
  with assms inv_retry(1) show ?thesis by auto
next
  case (RetryAll st now)
  with assms inv_retry(2) show ?thesis by auto
next
  case (SelectExpired now)
  with assms(2) inv_purge(1) [OF assms(1)] show ?thesis by (simp only:)
next
  case ObjectsDeleted
  with assms(2) inv_purge(2) [OF assms(1)] show ?thesis by (simp only:)
next
  case RowsDeleted
  with assms(2) inv_purge(3) [OF assms(1)] show ?thesis by (simp only:)
next
  case PurgeFailed
  with assms(2) inv_purge(4) [OF assms(1)] show ?thesis by (simp only:)
next
  case (RemoveBegin i)
  with assms(2) inv_remove(1) [OF assms(1)] show ?thesis by (simp only:)
next
  case (RemoveObject i k)
  with assms(2) inv_remove(2) [OF assms(1)] show ?thesis by (simp only:)
next
  case (RemoveEnd i k)
  with assms(2) inv_remove(3) [OF assms(1)] show ?thesis by (simp only:)
next
  case (RemoveFailed x)
  with assms(2) inv_remove(4) [OF assms(1)] show ?thesis by (simp only:)
qed

lemma reachable_inv: "reachable D s \<Longrightarrow> sys_inv D s"
  by (induction rule: reachable.induct) (auto intro: sys_inv_start sys_inv_step)

text \<open>The first elements of a sorted list: what is left out is not smaller.\<close>

lemma sorted_take_rest:
  assumes "sorted (map k xs)" and "r \<in> set xs"
  shows "r \<in> set (take n xs) \<or> length (take n xs) = n \<and> (\<forall>x \<in> set (take n xs). k x \<le> k r)"
proof (cases "r \<in> set (take n xs)")
  case False
  then have d: "r \<in> set (drop n xs)" using assms(2) by (metis Un_iff append_take_drop_id set_append)
  then have "n \<le> length xs" by (cases "n \<le> length xs") simp_all
  moreover have "sorted (map k (take n xs) @ map k (drop n xs))"
    using assms(1) by (metis append_take_drop_id map_append)
  then have "\<forall>x \<in> set (take n xs). k x \<le> k r" using d by (auto simp: sorted_append)
  ultimately show ?thesis by simp
qed simp

section \<open>A run\<close>

definition sample_dep :: deployment where
  "sample_dep = \<lparr>dp_url_ok = (\<lambda>u. True), dp_version = lit ''1'', dp_prefix = lit ''inbox/''\<rparr>"

lemma sample_safe: "assert_header_safe ''Delivered-To'' (lit ''b'') = Inr ()" "assert_header_safe ''Return-Path'' (lit ''a'') = Inr ()"
  by (simp_all add: assert_header_safe_def MAX_LINE_OCTETS_def text_encode_def utf8_char_low high_surrogate_def)

lemma sample_stored: "\<exists>stored. prepend_headers [] (envelope_headers (lit ''a'') (lit ''b'')) = Inr stored"
  by (simp add: prepend_headers_def envelope_headers_def assert_header_safe_def MAX_LINE_OCTETS_def
        high_surrogate_def text_encode_def utf8_char_low)

lemma sample_ascii: "ascii_value (lit ''a'') = Some (lit ''a'')" "ascii_value (lit ''b'') = Some (lit ''b'')"
  "take MAX_METADATA_ADDRESS (lit ''a'') = lit ''a''" "take MAX_METADATA_ADDRESS (lit ''b'') = lit ''b''"
  by (simp_all add: encode_unit_def ascii_safe_def MAX_METADATA_ADDRESS_def)

lemma sample_mail:
  "\<exists>stored e. handle_email p (lit ''X'') 1000 (lit ''a'') (lit ''b'') [] None = Store (object_key p (lit ''X'')) stored e"
  using sample_stored by (auto simp: handle_email_def sample_safe sample_ascii simp del: lit_simps)

text \<open>One message has arrived at time 1000 and is queued.\<close>

lemma sample_run:
  obtains s r where "reachable sample_dep s" "phase_of s = Idle" "inbox (wk s) = [r]" "alarm_at (wk s) = Some 1000"
    "q_id r = lit ''X''" "q_status r = StPending" "q_next_attempt_at r = Some 1000" "accepted s = {lit ''X''}"
    "handed s = {}" "discarded s = {}" "q_purge_at r = None" "q_from r = lit ''a''" "q_to r = lit ''b''"
    "content s (lit ''X'') \<noteq> None" "bucket (wk s) (q_r2_key r) = content s (lit ''X'')" "q_attempts r = 0" "healthy s"
proof -
  have "\<exists>stored e. handle_email (dp_prefix sample_dep) (lit ''X'') 1000 (lit ''a'') (lit ''b'') [] None
      = Store (object_key (dp_prefix sample_dep) (lit ''X'')) stored e"
    by (rule sample_mail)
  then obtain stored e where h: "handle_email (dp_prefix sample_dep) (lit ''X'') 1000 (lit ''a'') (lit ''b'') [] None
      = Store (object_key (dp_prefix sample_dep) (lit ''X'')) stored e" by blast
  note e = handle_email_Store [OF h]
  define s1 where "s1 = start\<lparr>wk := (wk start)\<lparr>bucket := (bucket (wk start))(object_key (dp_prefix sample_dep) (lit ''X'') := Some stored)\<rparr>,
      arriving := [e], used := {lit ''X''}, content := (content start)(lit ''X'' := Some stored)\<rparr>"
  have 1: "act_step sample_dep start (Mail (lit ''X'') 1000 (lit ''a'') (lit ''b'') [] None) = Some s1"
    unfolding act_step.simps h by (simp add: s1_def start_def del: lit_simps)
  obtain c where c: "load_config (dp_url_ok sample_dep) sample_worker_env = Some c" "delivery_delay_ms c = 0"
    using sample_config by (auto simp: sample_dep_def)
  define s2 where "s2 = s1\<lparr>wk := fst (enqueue 1000 (Some c) e (wk s1)), accepted := insert (e_id e) (accepted s1)\<rparr>"
  have 2: "act_step sample_dep s1 (Enqueue e 1000 sample_worker_env) = Some s2"
    by (simp add: s2_def c(1)) (simp add: s1_def)
  have "reachable sample_dep s2" using 1 2 by (blast intro: reachable.intros)
  moreover have w: "inbox (wk s1) = []" "alarm_at (wk s1) = None"
    "bucket (wk s1) (object_key (dp_prefix sample_dep) (lit ''X'')) = Some stored"
    by (simp_all add: s1_def start_def del: lit_simps)
  then have i: "inbox (wk s2) = [new_row e 1000]" "alarm_at (wk s2) = Some 1000" "bucket (wk s2) = bucket (wk s1)"
    by (simp_all add: s2_def enqueue_def find_row_def delivery_delay_def c(2) arm_no_later_than_def Let_def)
  have f: "phase_of s2 = Idle" "healthy s2" "accepted s2 = {e_id e}" "handed s2 = {}" "discarded s2 = {}" "content s2 (lit ''X'') = Some stored"
    by (simp_all add: s2_def s1_def start_def del: lit_simps)
  have r: "q_id (new_row e 1000) = lit ''X''" "q_from (new_row e 1000) = lit ''a''" "q_to (new_row e 1000) = lit ''b''"
    "q_r2_key (new_row e 1000) = object_key (dp_prefix sample_dep) (lit ''X'')"
    using e by (simp_all add: new_row_def del: lit_simps)
  ultimately show thesis
    using e by (intro that [of s2 "new_row e 1000"]) (simp_all add: i f r w new_row_def [of e 1000] del: lit_simps)
qed

section \<open>Properties\<close>

text \<open>
  C3. No accepted message is lost: in every reachable state, whatever the interleaving of mail,
  passes, restarts and operators, every id for which \<open>enqueue\<close> has returned has been delivered, or an operator
  asked to remove it, or has a row whose object in the bucket is exactly the message that was
  stored; and whatever is with Odoo at any moment is, octet for octet, what was stored under that id.
\<close>

theorem accepted_never_lost:
  assumes "reachable D s"
  shows "(\<forall>i \<in> accepted s. i \<in> handed s \<or> i \<in> discarded s
      \<or> (\<exists>r \<in> set (inbox (wk s)). q_id r = i \<and> bucket (wk s) (q_r2_key r) = content s i \<and> content s i \<noteq> None))
    \<and> (\<forall>c r body rest. phase_of s = Fetching c r body rest \<longrightarrow> content s (q_id r) = Some body)"
proof -
  have inv: "sys_inv D s" by (rule reachable_inv [OF assms])
  have "\<exists>r \<in> set (inbox (wk s)). q_id r = i \<and> bucket (wk s) (q_r2_key r) = content s i \<and> content s i \<noteq> None"
    if i: "i \<in> accepted s" "i \<notin> handed s" "i \<notin> discarded s" for i
  proof -
    from i inv obtain r where r: "r \<in> set (inbox (wk s))" "q_id r = i"
      by (auto simp: sys_inv_def inv_kept_def ids_def)
    from sys_inv_known [OF inv r(1)] have k: "i \<in> used s" "q_r2_key r = object_key (dp_prefix D) i"
      by (simp_all add: known_def r(2))
    from inv k(1) i(2,3) have "bucket (wk s) (object_key (dp_prefix D) i) = content s i \<and> content s i \<noteq> None"
      unfolding sys_inv_def inv_content_def by blast
    with r k(2) show ?thesis by (intro bexI [of _ r]) simp_all
  qed
  with inv show ?thesis by (auto simp: sys_inv_def inv_phase_def)
qed

theorem accepted_never_lost_witness:
  "\<exists>s. reachable sample_dep s \<and> lit ''X'' \<in> accepted s \<and> handed s = {} \<and> discarded s = {} \<and>
     (\<exists>r \<in> set (inbox (wk s)). q_id r = lit ''X'' \<and> bucket (wk s) (q_r2_key r) = content s (lit ''X'')
        \<and> content s (lit ''X'') \<noteq> None)"
proof -
  obtain s where s: "reachable sample_dep s" "accepted s = {lit ''X''}" "handed s = {}" "discarded s = {}"
    by (rule sample_run)
  then have a: "lit ''X'' \<in> accepted s" by simp
  with accepted_never_lost [OF s(1), THEN conjunct1] s(3,4)
  have "\<exists>r \<in> set (inbox (wk s)). q_id r = lit ''X'' \<and> bucket (wk s) (q_r2_key r) = content s (lit ''X'')
      \<and> content s (lit ''X'') \<noteq> None" by blast
  with a s(1,3,4) show ?thesis by blast
qed

text \<open>
  C15. The queue is always well formed: ids are unique, a row has a next attempt exactly while it
  is pending and a purge date exactly while it is delivered, its error fits the column, it points at the object of
  its own id, and it only counts as delivered, and is only purged, after a 2xx answer.
\<close>

theorem queue_well_formed:
  assumes "reachable D s"
  shows "distinct (map q_id (inbox (wk s)))
    \<and> (\<forall>r \<in> set (inbox (wk s)).
        (q_status r = StPending \<longleftrightarrow> q_next_attempt_at r \<noteq> None)
        \<and> (q_status r = StDelivered \<longleftrightarrow> q_purge_at r \<noteq> None)
        \<and> (\<forall>e. q_last_error r = Some e \<longrightarrow> length e \<le> 200)
        \<and> q_r2_key r = object_key (dp_prefix D) (q_id r)
        \<and> (q_status r = StDelivered \<longrightarrow> q_id r \<in> handed s))
    \<and> (\<forall>ps b. phase_of s = Purging ps b \<longrightarrow> (\<forall>(i, k) \<in> set ps. i \<in> handed s))"
proof -
  have inv: "sys_inv D s" by (rule reachable_inv [OF assms])
  with sys_inv_rows [OF inv] show ?thesis
    by (auto simp: table_def list_all_iff sys_row_def row_ok_def known_def sys_inv_def inv_phase_def)
qed

theorem queue_well_formed_witness:
  "\<exists>s r. reachable sample_dep s \<and> inbox (wk s) = [r] \<and> q_r2_key r = object_key (lit ''inbox/'') (lit ''X'')"
proof -
  obtain s r where s: "reachable sample_dep s" "inbox (wk s) = [r]" "q_id r = lit ''X''"
    by (rule sample_run)
  from queue_well_formed [OF s(1)] s(2,3) have "q_r2_key r = object_key (dp_prefix sample_dep) (lit ''X'')" by simp
  with s show ?thesis by (auto simp: sample_dep_def simp del: lit_simps)
qed

text \<open>
  C9. The queue never falls asleep with work to do: whenever the alarm handler is not running and a row is
  pending or has a purge date, the alarm is set; and when it fires while pending rows are due and the configuration
  loads, the pass attempts the oldest ten of them, in order, all of them when there are no more.
\<close>

theorem alarm_always_armed:
  assumes "reachable D s" and "phase_of s = Idle"
    and "r \<in> set (inbox (wk s))" and "q_status r = StPending \<or> q_purge_at r \<noteq> None"
  shows "\<exists>t. alarm_at (wk s) = Some t \<and> (\<forall>now \<ge> t. \<forall>env c.
      load_config (dp_url_ok D) env = Some c \<and> q_status r = StPending \<and> reached now (q_next_attempt_at r) \<longrightarrow>
      (\<exists>s' rows. act_step D s (Fire now env) = Some s' \<and> phase_of s' = Delivering c rows \<and> length rows \<le> 10
        \<and> sorted (map (\<lambda>x. (the (q_next_attempt_at x), q_id x)) rows)
        \<and> (r \<in> set rows \<or> length rows = 10 \<and>
            (\<forall>x \<in> set rows. (the (q_next_attempt_at x), q_id x) \<le> (the (q_next_attempt_at r), q_id r)))))"
proof -
  have inv: "sys_inv D s" by (rule reachable_inv [OF assms(1)])
  have "sys_row D (used s) (handed s) r"
    using sys_inv_rows [OF inv] assms(3) by (simp add: table_def list_all_iff)
  then have "next_times (inbox (wk s)) \<noteq> []"
    using assms(3,4) by (auto simp: next_times_Nil sys_row_def row_ok_def)
  with inv assms(2) obtain t where t: "alarm_at (wk s) = Some t" by (auto simp: sys_inv_def inv_alarm_def)
  have "\<exists>s' rows. act_step D s (Fire now env) = Some s' \<and> phase_of s' = Delivering c rows \<and> length rows \<le> 10
        \<and> sorted (map (\<lambda>x. (the (q_next_attempt_at x), q_id x)) rows)
        \<and> (r \<in> set rows \<or> length rows = 10 \<and>
            (\<forall>x \<in> set rows. (the (q_next_attempt_at x), q_id x) \<le> (the (q_next_attempt_at r), q_id r)))"
    if "t \<le> now" "load_config (dp_url_ok D) env = Some c" "q_status r = StPending" "reached now (q_next_attempt_at r)"
    for now env c
  proof -
    let ?k = "\<lambda>x. (the (q_next_attempt_at x), q_id x)"
    let ?all = "sort_key ?k (filter (\<lambda>r. q_status r = StPending \<and> reached now (q_next_attempt_at r)) (inbox (wk s)))"
    let ?rows = "due_rows now ALARM_BATCH (inbox (wk s))"
    have rows: "?rows = take 10 ?all" by (simp add: due_rows_def ALARM_BATCH_def)
    have r: "r \<in> set ?all" using assms(3) that(3,4) by simp
    have srt: "sorted (map ?k ?all)" by (rule sorted_sort_key)
    then have s1: "sorted (map ?k ?rows)" unfolding rows take_map [symmetric] by (rule sorted_wrt_take)
    have sel: "r \<in> set ?rows \<or> length ?rows = 10 \<and> (\<forall>x \<in> set ?rows. ?k x \<le> ?k r)"
      unfolding rows by (rule sorted_take_rest [OF srt r])
    then have ne: "?rows \<noteq> []" by (auto simp del: length_0_conv)
    moreover have "phase_of (fire D now env s) = Delivering c ?rows"
      using ne that(2) by (simp add: fire_def Let_def)
    moreover have "act_step D s (Fire now env) = Some (fire D now env s)"
      using assms(2) t that(1) by (simp add: reached_def)
    moreover have "length ?rows \<le> 10" by (simp add: due_rows_def ALARM_BATCH_def)
    ultimately show ?thesis using s1 sel by blast
  qed
  with t show ?thesis by blast
qed

theorem alarm_always_armed_witness:
  "\<exists>s s' r c. reachable sample_dep s \<and> act_step sample_dep s (Fire 1000 sample_worker_env) = Some s'
     \<and> inbox (wk s) = [r] \<and> phase_of s' = Delivering c [r]"
proof -
  obtain s r where s: "reachable sample_dep s" "phase_of s = Idle" "inbox (wk s) = [r]" "alarm_at (wk s) = Some 1000"
    and r: "q_status r = StPending" "q_next_attempt_at r = Some 1000"
    by (rule sample_run)
  obtain c where c: "load_config (dp_url_ok sample_dep) sample_worker_env = Some c"
    using sample_config by (auto simp: sample_dep_def)
  have m: "r \<in> set (inbox (wk s))" by (simp add: s(3))
  have "reached 1000 (q_next_attempt_at r)" by (simp add: r(2) reached_def)
  with alarm_always_armed [OF s(1,2) m] r(1) c s(4) obtain s' rows where
    s': "act_step sample_dep s (Fire 1000 sample_worker_env) = Some s'" "phase_of s' = Delivering c rows"
    by fastforce
  from s' s(2-4) c r have "rows = [r]"
    by (auto simp: fire_def Let_def due_rows_def ALARM_BATCH_def reached_def)
  with s s' show ?thesis by blast
qed

end
