(* ===== verification/Delivery.thy ===== *)
theory Delivery
  imports Machine
begin

text \<open>
  What a pass of the Worker does to a row: the outcome of an attempt on every branch, the budget
  of attempts, and three situations in which the code falls short of what it says.
\<close>

section \<open>One answer\<close>

text \<open>The row an answer leaves, or the answer of a network failure.\<close>

definition answered_row :: "worker_config \<Rightarrow> nat \<Rightarrow> fetch_result \<Rightarrow> nat \<Rightarrow> inbox_row \<Rightarrow> inbox_row option" where
  "answered_row c now f attempt r =
     (case judge_answer f of (v, st, e, th) \<Rightarrow> settled_row c now attempt v st e th r)"

lemma got_answer_inbox:
  assumes "config_ok c"
  shows "inbox (wk (got_answer now f c row rest s)) =
    map (\<lambda>r. if q_id r = q_id row \<and> q_status r = StPending then the (answered_row c now f (q_attempts row + 1) r) else r)
      (inbox (wk s))"
proof -
  obtain v st e th where j: "judge_answer f = (v, st, e, th)" by (cases "judge_answer f")
  have "settled_row c now (Suc (q_attempts row)) v st e th row \<noteq> None" by (rule settled_row_total [OF assms])
  then obtain y where "settled_row c now (Suc (q_attempts row)) v st e th row = Some y" by blast
  then show ?thesis
    by (simp add: got_answer_def settle_or_log_def settle_def j answered_row_def update_rows_inbox Let_def)
qed

lemma answered_row_total: "config_ok c \<Longrightarrow> \<exists>r'. answered_row c now f n r = Some r'"
  using settled_row_total by (fastforce simp: answered_row_def split: prod.split)

definition transient :: "fetch_result \<Rightarrow> bool" where
  "transient f = (case f of NotAnswered m \<Rightarrow> True
     | Answered a \<Rightarrow> resp_status a = 408 \<or> resp_status a = 429 \<or> (500 \<le> resp_status a \<and> resp_status a < 600))"

definition success :: "fetch_result \<Rightarrow> bool" where
  "success f = (case f of NotAnswered m \<Rightarrow> False | Answered a \<Rightarrow> 200 \<le> resp_status a \<and> resp_status a < 300)"

lemma judge_answer_verdict:
  "fst (judge_answer f) = Classified (if success f then Delivered else if transient f then RetryLater else Rejected)"
  by (auto simp: judge_answer_def success_def transient_def classify_status_def Let_def split: fetch_result.split)

text \<open>The four outcomes.\<close>

lemma answered_row_cases:
  assumes "answered_row c now f n r = Some r'"
  shows "q_id r' = q_id r \<and> q_r2_key r' = q_r2_key r \<and> q_attempts r' = n \<and> q_last_attempt_at r' = Some now
    \<and> (if success f then q_status r' = StDelivered \<and> q_delivered_at r' = Some now
          \<and> q_purge_at r' = Some (now + retention_ms c) \<and> q_last_error r' = None
       else if \<not> transient f then q_status r' = StRejected \<and> q_next_attempt_at r' = None
       else if max_attempts c \<le> n then q_status r' = StDead \<and> q_next_attempt_at r' = None
       else q_status r' = StPending
          \<and> (\<exists>ms. backoff_ms (backoff_seconds c) n = Some ms \<and> q_next_attempt_at r' = Some (now + ms)))"
proof -
  obtain v st e th where j: "judge_answer f = (v, st, e, th)" by (cases "judge_answer f")
  have v: "v = Classified (if success f then Delivered else if transient f then RetryLater else Rejected)"
    using judge_answer_verdict [of f] by (simp add: j)
  have e: "e = None" if "success f"
    using that j by (auto simp: judge_answer_def success_def classify_status_def Let_def split: fetch_result.splits)
  from settled_row_cases [of c now n v st e th r r'] assms v e show ?thesis
    by (auto simp: answered_row_def j final_outcome_def)
qed

section \<open>The budget of attempts\<close>

text \<open>A row after a list of answers, each with the time it came.\<close>

fun after_answers :: "worker_config \<Rightarrow> (nat \<times> fetch_result) list \<Rightarrow> inbox_row \<Rightarrow> inbox_row option" where
  "after_answers c [] r = Some r"
| "after_answers c ((t, f) # ts) r =
     (case answered_row c t f (q_attempts r + 1) r of None \<Rightarrow> None | Some r1 \<Rightarrow> after_answers c ts r1)"

lemma after_answers_snoc:
  "after_answers c (ts @ [(t, f)]) r =
     (case after_answers c ts r of None \<Rightarrow> None | Some r1 \<Rightarrow> answered_row c t f (q_attempts r1 + 1) r1)"
  by (induction c ts r rule: after_answers.induct) (auto split: option.split)

lemma after_answers_attempts:
  "config_ok c \<Longrightarrow> \<exists>r'. after_answers c ts r = Some r' \<and> q_attempts r' = q_attempts r + length ts"
proof (induction ts rule: rev_induct)
  case (snoc x ts)
  obtain t f where x: "x = (t, f)" by (cases x)
  from snoc obtain r1 where r1: "after_answers c ts r = Some r1" "q_attempts r1 = q_attempts r + length ts" by blast
  obtain r2 where r2: "answered_row c t f (q_attempts r1 + 1) r1 = Some r2"
    using answered_row_total [OF snoc.prems] by blast
  then have "after_answers c (ts @ [x]) r = Some r2" by (simp only: after_answers_snoc x r1(1) option.case)
  moreover have "q_attempts r2 = q_attempts r + length (ts @ [x])" using answered_row_cases [OF r2] r1(2) by simp
  ultimately show ?case by blast
qed simp

text \<open>The waits between the attempts.\<close>

definition waits :: "worker_config \<Rightarrow> nat \<Rightarrow> nat" where
  "waits c n = sum_list (map (\<lambda>k. the (backoff_ms (backoff_seconds c) k)) [1..<n])"

lemma waits_Suc: "1 \<le> n \<Longrightarrow> waits c (Suc n) = waits c n + the (backoff_ms (backoff_seconds c) n)"
  by (simp add: waits_def)

text \<open>The times respect the schedule: no attempt before the one set by the attempt before it.\<close>

definition on_schedule :: "worker_config \<Rightarrow> nat list \<Rightarrow> bool" where
  "on_schedule c ts \<longleftrightarrow>
     (\<forall>k. Suc k < length ts \<longrightarrow> ts ! k + the (backoff_ms (backoff_seconds c) (Suc k)) \<le> ts ! Suc k)"

lemma on_schedule_waits: "on_schedule c ts \<Longrightarrow> n < length ts \<Longrightarrow> ts ! 0 + waits c (Suc n) \<le> ts ! n"
proof (induction n)
  case (Suc n)
  then have "ts ! n + the (backoff_ms (backoff_seconds c) (Suc n)) \<le> ts ! Suc n" by (simp add: on_schedule_def)
  with Suc waits_Suc [of "Suc n" c] show ?case by simp
qed (simp add: waits_def)

lemma default_waits:
  assumes "backoff_seconds c = [60, 300, 900, 3600, 21600]"
  shows "waits c 32 = 588060000"
proof -
  have "[1..<32] = [1, 2, 3, 4] @ [5..<32 :: nat]" by (simp add: upt_rec)
  moreover have "the (backoff_ms (backoff_seconds c) k) = 21600000" if "k \<in> set [5..<32]" for k
  proof -
    have "5 \<le> k" using that by (simp only: set_upt atLeastLessThan_iff)
    then have "min (max k 1) 5 - 1 = 4" by simp
    then show ?thesis by (simp add: backoff_ms_def assms)
  qed
  then have "map (\<lambda>k. the (backoff_ms (backoff_seconds c) k)) [5..<32] = map (\<lambda>k. 21600000) [5..<32]"
    by (intro map_cong) simp_all
  ultimately show ?thesis
    by (simp only: waits_def map_append) (simp add: assms backoff_ms_def sum_list_replicate map_replicate_const)
qed

section \<open>A pass of the sample run\<close>

definition sample_ok :: fetch_result where
  "sample_ok = Answered \<lparr>resp_status = 200, resp_body = None\<rparr>"

lemma sample_request:
  "q_from row = lit ''a'' \<Longrightarrow> q_to row = lit ''b'' \<Longrightarrow> request_headers v c row now body \<noteq> None"
  by (simp add: request_headers_def sample_ascii del: lit_simps)

lemma sample_fetching:
  obtains s c r body where "reachable sample_dep s" "phase_of s = Fetching c r body []" "inbox (wk s) = [r]"
    "q_status r = StPending" "retention_ms c = 2592000000" "q_id r = lit ''X''" "q_attempts r = 0" "q_from r = lit ''a''"
    "q_to r = lit ''b''" "webhook_secret c = lit ''0123456789abcdef''" "accepted s = {lit ''X''}"
proof -
  obtain s r where s: "reachable sample_dep s" "phase_of s = Idle" "inbox (wk s) = [r]" "alarm_at (wk s) = Some 1000"
    and r: "q_id r = lit ''X''" "q_status r = StPending" "q_next_attempt_at r = Some 1000" "q_from r = lit ''a''" "q_to r = lit ''b''"
      "q_attempts r = 0"
    and o: "content s (lit ''X'') \<noteq> None" "bucket (wk s) (q_r2_key r) = content s (lit ''X'')" and a: "accepted s = {lit ''X''}"
    by (rule sample_run)
  obtain c where c: "load_config (dp_url_ok sample_dep) sample_worker_env = Some c" "retention_ms c = 30 * 86400000"
    "webhook_secret c = lit ''0123456789abcdef''"
    using sample_config by (auto simp: sample_dep_def)
  from o obtain body where body: "bucket (wk s) (q_r2_key r) = Some body" by auto
  have 1: "act_step sample_dep s (Fire 1000 sample_worker_env) = Some (s\<lparr>wk := (wk s)\<lparr>alarm_at := None\<rparr>, phase_of := Delivering c [r]\<rparr>)"
    using s c(1) r by (simp add: reached_def fire_def Let_def due_rows_def ALARM_BATCH_def del: lit_simps)
  let ?s = "s\<lparr>wk := (wk s)\<lparr>alarm_at := None\<rparr>, phase_of := Fetching c r body []\<rparr>"
  have 2: "act_step sample_dep (s\<lparr>wk := (wk s)\<lparr>alarm_at := None\<rparr>, phase_of := Delivering c [r]\<rparr>) (GetObject 1000 True) = Some ?s"
    using sample_request [OF r(4,5), of "dp_version sample_dep" c 1000 body] by (auto simp: get_object_def body)
  have "reachable sample_dep ?s" by (rule reach_step [OF reach_step [OF s(1) 1] 2])
  then show thesis using s r c a by (intro that [of ?s c r body]) simp_all
qed

section \<open>Properties\<close>

text \<open>
  C13. An answer settles exactly the row it is for, and only while that row is pending: the row
  becomes delivered, with its purge date, on a 2xx; rejected on any other status that is not
  transient; after a 408, 429, 5xx or no answer at all it stays pending with its next attempt one wait of the
  schedule later, or is dead when this was the last attempt. Every other row is left as it is,
  and so is a row an operator removed or requeued in the meantime.
\<close>

theorem answer_settles_row:
  assumes "reachable D s" and "phase_of s = Fetching c row body rest" and "act_step D s (Answer now f) = Some s'"
  shows "map q_id (inbox (wk s')) = map q_id (inbox (wk s)) \<and> bucket (wk s') = bucket (wk s)
    \<and> (\<forall>k < length (inbox (wk s)). let r = inbox (wk s) ! k; r' = inbox (wk s') ! k; n = q_attempts row + 1 in
        if q_id r \<noteq> q_id row \<or> q_status r \<noteq> StPending then r' = r
        else q_attempts r' = n \<and>
          (if success f then q_status r' = StDelivered \<and> q_purge_at r' = Some (now + retention_ms c)
           else if \<not> transient f then q_status r' = StRejected
           else if max_attempts c \<le> n then q_status r' = StDead
           else q_status r' = StPending \<and>
             (\<exists>ms. backoff_ms (backoff_seconds c) n = Some ms \<and> q_next_attempt_at r' = Some (now + ms))))"
proof -
  have inv: "sys_inv D s" by (rule reachable_inv [OF assms(1)])
  then have c: "config_ok c" using assms(2) by (simp add: sys_inv_def inv_phase_def)
  have s': "s' = got_answer now f c row rest s" using assms(2,3) by simp
  note rows = got_answer_inbox [OF c, of now f row rest s, folded s']
  have i: "q_id (the (answered_row c now f (q_attempts row + 1) r)) = q_id r" for r
    using answered_row_total [OF c, of now f "q_attempts row + 1" r] answered_row_cases [of c now f "q_attempts row + 1" r]
    by fastforce
  have "bucket (wk s') = bucket (wk s)"
    using inv_settle(2) [OF inv subset_UNIV, of "judge_answer f" row c now] by (simp add: s' got_answer_def)
  moreover have "map q_id (inbox (wk s')) = map q_id (inbox (wk s))"
    unfolding rows by (simp add: i [unfolded Suc_eq_plus1 [symmetric]])
  moreover have "let r = inbox (wk s) ! k; r' = inbox (wk s') ! k; n = q_attempts row + 1 in
        if q_id r \<noteq> q_id row \<or> q_status r \<noteq> StPending then r' = r
        else q_attempts r' = n \<and>
          (if success f then q_status r' = StDelivered \<and> q_purge_at r' = Some (now + retention_ms c)
           else if \<not> transient f then q_status r' = StRejected
           else if max_attempts c \<le> n then q_status r' = StDead
           else q_status r' = StPending \<and>
             (\<exists>ms. backoff_ms (backoff_seconds c) n = Some ms \<and> q_next_attempt_at r' = Some (now + ms)))"
    if k: "k < length (inbox (wk s))" for k
  proof -
    let ?r = "inbox (wk s) ! k"
    obtain r' where r': "answered_row c now f (q_attempts row + 1) ?r = Some r'" using answered_row_total [OF c] by blast
    have e: "inbox (wk s') ! k = (if q_id ?r = q_id row \<and> q_status ?r = StPending then r' else ?r)"
      using k r' by (simp add: rows)
    show ?thesis
    proof (cases "q_id ?r = q_id row \<and> q_status ?r = StPending")
      case True
      then have e: "inbox (wk s') ! k = r'" using e by simp
      show ?thesis unfolding Let_def e using True answered_row_cases [OF r'] by (simp split: if_splits)
    next
      case False
      have e: "inbox (wk s') ! k = ?r" by (simp only: e if_not_P [OF False])
      show ?thesis unfolding Let_def e using False by simp
    qed
  qed
  ultimately show ?thesis by blast
qed

theorem answer_settles_row_witness:
  "\<exists>s s' r'. reachable sample_dep s' \<and> act_step sample_dep s (Answer 1000 sample_ok) = Some s'
     \<and> inbox (wk s') = [r'] \<and> q_status r' = StDelivered \<and> q_purge_at r' = Some 2592001000"
proof -
  obtain s c r body where s: "reachable sample_dep s" "phase_of s = Fetching c r body []" "inbox (wk s) = [r]"
    "q_status r = StPending" "retention_ms c = 2592000000"
    by (rule sample_fetching)
  obtain s' where s': "act_step sample_dep s (Answer 1000 sample_ok) = Some s'" using s(2) by simp
  have ok: "success sample_ok" by (simp add: success_def sample_ok_def)
  note t = answer_settles_row [OF s(1,2) s']
  from t obtain r' where r': "inbox (wk s') = [r']" using s(3) by (cases "inbox (wk s')") auto
  with t ok s(3-5) have "q_status r' = StDelivered" "q_purge_at r' = Some 2592001000" by (auto simp: Let_def)
  with r' s' s(1) show ?thesis by (blast intro: reach_step)
qed



section \<open>Where the code falls short\<close>

text \<open>
  C38. A finding: a delivery that throws costs no attempt and no wait. When R2 cannot be read, or
  an envelope address cannot be encoded, the exception is caught for the row, the pass counts as
  healthy, and the alarm is set to the row's time, which has passed: the alarm fires at once, again and
  again, and however often it does, the state is the one it began with.
\<close>

theorem throwing_delivery_spins:
  assumes "phase_of s = Idle" and "healthy s" and "inbox (wk s) = [r]" and "q_status r = StPending"
    and "q_next_attempt_at r = Some t" and "alarm_at (wk s) = Some t" and "t \<le> now" and "q_purge_at r = None"
    and "load_config (dp_url_ok D) env = Some c"
    and "\<not> ok \<or> bucket (wk s) (q_r2_key r) \<noteq> None \<and> (ascii_value (q_from r) = None \<or> ascii_value (q_to r) = None)"
  shows "run_acts D (concat (replicate n [Fire now env, GetObject now ok, SelectExpired now, Rearm now])) s = Some s"
proof -
  let ?pass = "[Fire now env, GetObject now ok, SelectExpired now, Rearm now]"
  let ?w = "(wk s)\<lparr>alarm_at := None\<rparr>"
  have due: "due_rows now ALARM_BATCH [r] = [r]"
    using assms(4,5,7) by (simp add: due_rows_def ALARM_BATCH_def reached_def)
  have 1: "act_step D s (Fire now env) = Some (s\<lparr>wk := ?w, phase_of := Delivering c [r]\<rparr>)"
    using assms due by (simp add: reached_def fire_def Let_def)
  have "request_headers (dp_version D) c r now body = None" if "ascii_value (q_from r) = None \<or> ascii_value (q_to r) = None" for body
    using that by (auto simp: request_headers_def split: option.split)
  then have 2: "act_step D (s\<lparr>wk := ?w, phase_of := Delivering c [r]\<rparr>) (GetObject now ok) = Some (s\<lparr>wk := ?w, phase_of := PurgeDue\<rparr>)"
    using assms(10) by (auto simp: get_object_def after_row_def)
  have 3: "act_step D (s\<lparr>wk := ?w, phase_of := PurgeDue\<rparr>) (SelectExpired now) = Some (s\<lparr>wk := ?w, phase_of := Rearming\<rparr>)"
    using assms(3,8) by (simp add: select_expired_def expired_rows_def reached_def)
  have ne: "next_times [r] = [t]"
    using assms(4,5,8) by (simp add: next_times_def List.map_filter_simps)
  have "rearm ?w = wk s"
    using assms(3,6) ne by (cases "wk s") (simp add: rearm_def)
  then have 4: "act_step D (s\<lparr>wk := ?w, phase_of := Rearming\<rparr>) (Rearm now) = Some s"
    using assms(1,2) by (cases s) (simp add: end_pass_def)
  have pass: "run_acts D (?pass @ as) s = run_acts D as s" for as
    using 1 2 3 4 by (simp del: act_step.simps)
  show ?thesis
  proof (induction n)
    case (Suc n)
    then show ?case using pass [of "concat (replicate n ?pass)"] by simp
  qed simp
qed

theorem throwing_delivery_spins_witness:
  "\<exists>s :: sys. reachable sample_dep s \<and> accepted s \<noteq> {} \<and> handed s = {} \<and>
     run_acts sample_dep (concat (replicate 1000 [Fire 1000 sample_worker_env, GetObject 1000 False, SelectExpired 1000, Rearm 1000])) s
       = Some s"
proof -
  obtain s r where s: "reachable sample_dep s" "phase_of s = Idle" "inbox (wk s) = [r]" "alarm_at (wk s) = Some 1000"
    and r: "q_status r = StPending" "q_next_attempt_at r = Some 1000" "q_purge_at r = None"
    and a: "accepted s = {lit ''X''}" "handed s = {}" and h: "healthy s"
    by (rule sample_run)
  obtain c where c: "load_config (dp_url_ok sample_dep) sample_worker_env = Some c"
    using sample_config by (auto simp: sample_dep_def)
  have "run_acts sample_dep (concat (replicate 1000 [Fire 1000 sample_worker_env, GetObject 1000 False, SelectExpired 1000, Rearm 1000])) s
      = Some s"
    by (rule throwing_delivery_spins [OF s(2) h s(3) r(1,2) s(4) le_refl r(3) c]) simp
  with s(1) a show ?thesis by blast
qed

text \<open>
  C39. A finding: the purge deletes the objects before it deletes the rows, and only the rows are guarded. A
  delivered row that an operator requeues between the purge's choice of rows and its end survives,
  as the comment promises, but without its object, and its next attempt marks it dead.
\<close>

theorem requeue_during_purge_loses_object:
  assumes "reachable D s" and "phase_of s = Purging ps False" and "(i, k) \<in> set ps"
    and "r \<in> set (inbox (wk s))" and "q_id r = i" and "q_status r \<noteq> StPending" and "config_ok c"
  shows "\<exists>s' r'. run_acts D [Retry i now, ObjectsDeleted, RowsDeleted] s = Some s' \<and> r' \<in> set (inbox (wk s'))
    \<and> q_id r' = i \<and> q_status r' = StPending \<and> bucket (wk s') (q_r2_key r') = None
    \<and> (\<exists>d \<in> set (inbox (wk (get_object D t True c r' [] s'))). q_id d = i \<and> q_status d = StDead
        \<and> q_last_error d = Some (lit ''stored message missing from R2''))"
proof -
  have inv: "sys_inv D s" by (rule reachable_inv [OF assms(1)])
  have k: "q_r2_key r = k"
  proof -
    from inv assms(2,3) have "k = object_key (dp_prefix D) i" by (auto simp: sys_inv_def inv_phase_def)
    with sys_inv_known [OF inv assms(4)] assms(5) show ?thesis by (simp add: known_def)
  qed
  let ?w1 = "fst (retry now i (wk s))"
  let ?r = "requeued now r"
  have "list_ex (\<lambda>r. q_id r = i \<and> q_status r \<noteq> StPending) (inbox (wk s))"
    using assms(4-6) by (auto simp: list_ex_iff)
  then have "inbox ?w1 = map (\<lambda>r. if q_id r = i \<and> q_status r \<noteq> StPending then requeued now r else r) (inbox (wk s))"
    by (simp add: retry_def Let_def update_rows_inbox)
  then have m1: "?r \<in> set (inbox ?w1)" using assms(4-6) by force
  define s' where "s' = s\<lparr>wk := purge_rows (map fst ps) (delete_objects (map snd ps) ?w1), phase_of := Rearming\<rparr>"
  have run: "run_acts D [Retry i now, ObjectsDeleted, RowsDeleted] s = Some s'"
    using assms(2) by (simp add: s'_def)
  have m: "?r \<in> set (inbox (wk s'))" using m1 by (simp add: s'_def purge_rows_inbox)
  have b: "bucket (wk s') (q_r2_key ?r) = None" using assms(3) k by (force simp: s'_def)
  have "settled_row c t (Suc (q_attempts ?r)) Hopeless None (Some (lit ''stored message missing from R2'')) None ?r \<noteq> None"
    by (rule settled_row_total [OF assms(7)])
  then obtain d where d: "settled_row c t (Suc (q_attempts ?r)) Hopeless None (Some (lit ''stored message missing from R2'')) None ?r
      = Some d" by blast
  have "d \<in> set (inbox (wk (get_object D t True c ?r [] s')))"
    using m b d by (force simp: get_object_def missing_object_def settle_or_log_def settle_def update_rows_inbox Let_def
        simp del: lit_simps)
  moreover have "q_id d = i \<and> q_status d = StDead \<and> q_last_error d = Some (lit ''stored message missing from R2'')"
    using settled_row_cases [OF d] assms(5) by (simp add: final_outcome_def)
  ultimately show ?thesis using run m b assms(5) by (intro exI [of _ s'] exI [of _ ?r]) auto
qed

theorem requeue_during_purge_loses_object_witness:
  "\<exists>s s' r' i now. reachable sample_dep s \<and> run_acts sample_dep [Retry i now, ObjectsDeleted, RowsDeleted] s = Some s'
     \<and> r' \<in> set (inbox (wk s')) \<and> q_status r' = StPending \<and> bucket (wk s') (q_r2_key r') = None"
proof -
  obtain s c r body where s: "reachable sample_dep s" "phase_of s = Fetching c r body []" "inbox (wk s) = [r]"
    "q_status r = StPending" "retention_ms c = 2592000000"
    by (rule sample_fetching)
  have c: "config_ok c" using reachable_inv [OF s(1)] s(2) by (simp add: sys_inv_def inv_phase_def)
  let ?s1 = "got_answer 1000 sample_ok c r [] s"
  have ok: "success sample_ok" by (simp add: success_def sample_ok_def)
  obtain r1 where a: "answered_row c 1000 sample_ok (q_attempts r + 1) r = Some r1"
    using answered_row_total [OF c] by blast
  have r1: "q_status r1 = StDelivered" "q_purge_at r1 = Some 2592001000"
    using answered_row_cases [OF a] ok s(5) by simp_all
  have i1: "inbox (wk ?s1) = [r1]" using got_answer_inbox [OF c, of 1000 sample_ok r "[]" s] s(3,4) a by simp
  have 1: "act_step sample_dep s (Answer 1000 sample_ok) = Some ?s1" using s(2) by simp
  have p: "phase_of ?s1 = PurgeDue" by (simp add: got_answer_def after_row_def)
  let ?s2 = "?s1\<lparr>phase_of := Purging [(q_id r1, q_r2_key r1)] False\<rparr>"
  have 2: "act_step sample_dep ?s1 (SelectExpired 2592001000) = Some ?s2"
    using p i1 r1(2) by (simp add: select_expired_def expired_rows_def PURGE_BATCH_def reached_def)
  have s2: "reachable sample_dep ?s2" by (rule reach_step [OF reach_step [OF s(1) 1] 2])
  have ph: "phase_of ?s2 = Purging [(q_id r1, q_r2_key r1)] False" by simp
  have m: "r1 \<in> set (inbox (wk ?s2))" using i1 by simp
  from requeue_during_purge_loses_object [OF s2 ph _ m refl _ c, of "q_r2_key r1" 2592001000 0] r1(1) obtain s' r' where
    "run_acts sample_dep [Retry (q_id r1) 2592001000, ObjectsDeleted, RowsDeleted] ?s2 = Some s'"
    "r' \<in> set (inbox (wk s'))" "q_status r' = StPending" "bucket (wk s') (q_r2_key r') = None"
    by auto
  with s2 show ?thesis by blast
qed

text \<open>Long addresses: the header block of ASCII text is as long as the text.\<close>

lemma text_encode_ascii: "ascii s \<Longrightarrow> text_encode s = map oct s"
  using text_encode_scalar [OF list_all_scalar_ascii] encode_ascii by (metis option.inject utf16_ascii)

lemma js_points_ascii: "ascii s \<Longrightarrow> js_points s = s"
  using js_points_scalar [OF list_all_scalar_ascii] by (metis utf16_ascii)

lemma assert_header_safe_ascii:
  assumes "ascii (lit name)" and "ascii v" and "list_all (\<lambda>c. 32 \<le> c \<and> c \<noteq> 127) v"
  shows "assert_header_safe name v =
    (if MAX_LINE_OCTETS < length (lit name) + 2 + length v then Inl (LineTooLong name) else Inr ())"
proof -
  have "\<not> list_ex (\<lambda>c. c < 32 \<or> c = 127) v" using assms(3) by (induction v) auto
  then show ?thesis
    using assms by (simp add: assert_header_safe_def js_points_ascii text_encode_ascii)
qed

lemma long_sender_thrown:
  assumes n: "n = 984 \<or> n = 985"
  shows "assert_header_safe ''Return-Path'' (replicate n 97) = Inr ()
      \<and> handle_email p i now (replicate n 97) (lit ''b'') raw mid = Thrown"
proof -
  have a: "list_all (\<lambda>c. 32 \<le> c \<and> c \<noteq> 127) (replicate n (97 :: nat))" "ascii (replicate n 97)"
    by (simp_all add: list_all_iff ascii_def)
  have b: "assert_header_safe ''Delivered-To'' (lit ''b'') = Inr ()" by (rule sample_safe)
  have r: "assert_header_safe ''Return-Path'' (replicate n 97) = Inr ()"
    using n assert_header_safe_ascii [OF lit_ascii_names(2) a(2,1)] by (auto simp: MAX_LINE_OCTETS_def)
  have "assert_header_safe ''Return-Path'' (lit ''<'' @ replicate n 97 @ lit ''>'') = Inl (LineTooLong ''Return-Path'')"
    using n a by (subst assert_header_safe_ascii) (auto simp: MAX_LINE_OCTETS_def)
  moreover have "replicate n 97 \<noteq> ([] :: nat list)" using n by auto
  ultimately have "prepend_headers raw (envelope_headers (replicate n 97) (lit ''b'')) = Inl (LineTooLong ''Return-Path'')"
    by (simp add: prepend_headers_def envelope_headers_def b del: lit_simps)
  with r b show ?thesis
    by (simp add: handle_email_def)
qed


end
