(* ===== verification/EndToEnd.thy ===== *)
theory EndToEnd
  imports Delivery
begin

text \<open>
  The two halves put together: an attempt of the Worker's queue, answered by the webhook of the
  module, and what the answer makes of the row and of the database.
\<close>

section \<open>The request as the webhook reads it\<close>

lemma headers_get_append:
  "headers_get (hs @ hs') name = (case headers_get hs name of None \<Rightarrow> headers_get hs' name | Some v \<Rightarrow> Some v)"
  by (induction hs name rule: headers_get.induct) auto

lemma request_headers_get:
  assumes "request_headers version c row sent body = Some hs"
  obtains ef et where "ascii_value (q_from row) = Some ef" "ascii_value (q_to row) = Some et"
    "headers_get hs HEADER_TIMESTAMP = Some (dec_nat (unix_seconds sent))"
    "headers_get hs HEADER_SIGNATURE = Some (sign_body (text_encode (webhook_secret c)) (unix_seconds sent) body)"
    "headers_get hs HEADER_ENVELOPE_FROM = Some ef" "headers_get hs HEADER_ENVELOPE_TO = Some et"
  using assms
  by (auto simp: request_headers_def headers_get_append delivery_headers_get simp del: lit_simps split: option.splits)

section \<open>The answer as the Worker reads it\<close>

lemma body_text_encode:
  assumes "encode (123 # s) = Some b"
  shows "body_text \<lparr>resp_status = st, resp_body = Some b\<rparr> = Some (utf16 (123 # s))"
proof -
  obtain r where r: "b = 123 # r" using assms by (auto simp: utf8_char_def oct_def split: option.splits)
  then have "take 3 b \<noteq> [0xEF, 0xBB, 0xBF]" by simp
  with decode_encode [OF assms] show ?thesis by (simp add: body_text_def)
qed

lemma thread_id_of_answer:
  assumes "encode (dumps (JObj ((lit ''ok'', JBool b) # (lit ''thread_id'', JInt n) # [(lit ''id'', w)]))) = Some bytes"
    and "no_float w"
  shows "thread_id_of \<lparr>resp_status = st, resp_body = Some bytes\<rparr> = Some (dec_int n)"
proof -
  let ?j = "JObj ((lit ''ok'', JBool b) # (lit ''thread_id'', JInt n) # [(lit ''id'', w)])"
  obtain s where s: "dumps ?j = 123 # s" by simp
  have "body_text \<lparr>resp_status = st, resp_body = Some bytes\<rparr> = Some (utf16 (dumps ?j))"
    using body_text_encode assms(1) unfolding s by blast
  moreover have "json_parse (utf16 (dumps ?j)) = Some (to_js ?j)"
    using assms(2) by (intro json_parse_dumps) simp
  moreover have "js_get (to_js ?j) (lit ''thread_id'') = Some (JsNumber (dec_int n))"
  proof -
    have "utf16 (lit ''thread_id'') = lit ''thread_id''" "utf16 (lit ''ok'') = lit ''ok''" "utf16 (lit ''id'') = lit ''id''"
      by (intro utf16_ascii; simp)+
    then show ?thesis by (simp add: js_get_def lit_inject del: lit_simps)
  qed
  ultimately show ?thesis by (simp add: thread_id_of_def del: dumps.simps to_js.simps lit_simps)
qed

section \<open>Property\<close>

text \<open>
  C4. From queue to gateway and back. When the row and the server share the secret and the clocks
  agree within 300 seconds, the webhook processes exactly the message that was stored for the row, with the row's
  envelope addresses, and its answer settles the row as the processing ended: delivered, with
  the thread id the gateway reported, if and only if it was processed; rejected, with the
  database unchanged, if it was refused for good; and still pending, or dead when the attempts are
  spent, with the database unchanged, on any other failure.
\<close>

theorem queue_to_gateway:
  assumes "reachable D s" and "phase_of s = Fetching c row body rest"
    and "r \<in> set (inbox (wk s))" and "q_id r = q_id row" and "q_status r = StPending"
    and "request_headers version c row sent body = Some hs"
    and "find_by_key E db key = [i]" and "secret_of E db i = Some sec" and "sec \<noteq> []"
    and "encode sec = Some (text_encode (webhook_secret c))"
    and "length (dec_nat (unix_seconds sent)) \<le> 4300" and "\<bar>clock - int (unix_seconds sent)\<bar> \<le> 300"
    and "inbound E process clock now db key hs body = (db', Inr a)"
    and "encode (dumps (JObj (ans_payload a))) = Some bytes"
    and "act_step D s (Answer t (Answered \<lparr>resp_status = ans_status a, resp_body = Some bytes\<rparr>)) = Some s'"
  shows "content s (q_id row) = Some body \<and> (\<exists>ef et r'. ascii_value (q_from row) = Some ef \<and> ascii_value (q_to row) = Some et
    \<and> unquote ef = q_from row \<and> unquote et = q_to row
    \<and> r' \<in> set (inbox (wk s')) \<and> q_id r' = q_id row
    \<and> (case process_inbound E process now db i (BodyBytes body) (Some ef) (Some et) of
         (db1, Inr th) \<Rightarrow> db' = db1 \<and> q_status r' = StDelivered \<and> (case th of JInt n \<Rightarrow>
             q_thread_id r' = (if n = 0 then q_thread_id r' else Some (dec_int n)) | _ \<Rightarrow> True)
       | (db1, Inl e) \<Rightarrow> db' = db \<and>
           (if is_value_error e then q_status r' = StRejected
            else if max_attempts c \<le> q_attempts row + 1 then q_status r' = StDead
            else q_status r' = StPending)))"
proof -
  have inv: "sys_inv D s" by (rule reachable_inv [OF assms(1)])
  with assms(2) have c: "config_ok c" and content: "content s (q_id row) = Some body"
    by (auto simp: sys_inv_def inv_phase_def)
  obtain ef et where e: "ascii_value (q_from row) = Some ef" "ascii_value (q_to row) = Some et"
    and h: "headers_get hs HEADER_TIMESTAMP = Some (dec_nat (unix_seconds sent))"
    "headers_get hs HEADER_SIGNATURE = Some (sign_body (text_encode (webhook_secret c)) (unix_seconds sent) body)"
    "headers_get hs HEADER_ENVELOPE_FROM = Some ef" "headers_get hs HEADER_ENVELOPE_TO = Some et"
    by (rule request_headers_get [OF assms(6)])
  note u = unquote_ascii_value [OF e(1)] unquote_ascii_value [OF e(2)]
  have signed: "request_signed E db clock i hs body = Inr True"
    unfolding request_signed_def h assms(8) by (rule verify_worker_signature [OF assms(9-12)])
  obtain db1 res where p: "process_inbound E process now db i (BodyBytes body) (Some ef) (Some et) = (db1, res)"
    by (metis surj_pair)
  let ?w = "case headers_get hs HEADER_ID of None \<Rightarrow> JBool False | Some s \<Rightarrow> py_or (JStr s) (JBool False)"
  let ?f = "Answered \<lparr>resp_status = ans_status a, resp_body = Some bytes\<rparr>"
  have ans: "case res of
       Inr th \<Rightarrow> db' = db1 \<and> a = respond 200 None [(lit ''thread_id'', py_or th (JBool False)), (lit ''id'', ?w)]
     | Inl x \<Rightarrow> db' = db \<and> ans_status a = (if is_value_error x then 422 else 500)"
    using assms(13) inbound_signed [OF assms(7) signed] p h
    by (auto split: sum.splits if_splits simp del: lit_simps)
  obtain r' where r': "answered_row c t ?f (q_attempts row + 1) r = Some r'"
    using answered_row_total [OF c] by blast
  have s': "s' = got_answer t ?f c row rest s" using assms(2,15) by simp
  have m: "r' \<in> set (inbox (wk s'))"
    using got_answer_inbox [OF c, of t ?f row rest s] assms(3-5) r' by (force simp: s')
  note out = answered_row_cases [OF r']
  have th: "q_thread_id r' = thread_id_of \<lparr>resp_status = 200, resp_body = Some bytes\<rparr>" if "ans_status a = 200"
    using r' that settled_row_cases by (fastforce simp: answered_row_def judge_answer_def classify_status_def)
  have fin: "case res of
       Inr th \<Rightarrow> db' = db1 \<and> q_status r' = StDelivered \<and> (case th of JInt n \<Rightarrow>
           q_thread_id r' = (if n = 0 then q_thread_id r' else Some (dec_int n)) | _ \<Rightarrow> True)
     | Inl x \<Rightarrow> db' = db \<and> (if is_value_error x then q_status r' = StRejected
         else if max_attempts c \<le> q_attempts row + 1 then q_status r' = StDead else q_status r' = StPending)"
  proof (cases res)
    case (Inl x)
    with ans out show ?thesis by (auto simp: success_def transient_def split: if_splits)
  next
    case (Inr th')
    with ans have a: "a = respond 200 None [(lit ''thread_id'', py_or th' (JBool False)), (lit ''id'', ?w)]" by simp
    then have s: "ans_status a = 200" by simp
    have "q_thread_id r' = Some (dec_int n)" if n: "th' = JInt n" "n \<noteq> 0" for n
    proof -
      have "ans_payload a = (lit ''ok'', JBool True) # (lit ''thread_id'', JInt n) # [(lit ''id'', ?w)]"
        using n by (simp add: a respond_def py_or_def del: lit_simps)
      moreover have "no_float ?w" by (simp add: py_or_def split: option.split)
      ultimately show ?thesis using thread_id_of_answer [of True n ?w bytes 200] assms(14) th [OF s] by simp
    qed
    with Inr ans out s show ?thesis by (auto simp: success_def split: json.split)
  qed
  have "q_id r' = q_id row" using out assms(4) by simp
  with content e u m fin p show ?thesis
    by (intro conjI exI [of _ ef] exI [of _ et] exI [of _ r']) simp_all
qed

section \<open>The sample run, delivered\<close>

lemma sample_prepared: "\<exists>m. prepare_message (BodyBytes b) (Some (lit ''a'')) (Some (lit ''b'')) = Inr m"
proof -
  have c: "check_envelope ''envelope-from'' (Some (lit ''a'')) = Inr (Some (lit ''a''))"
    "check_envelope ''envelope-to'' (Some (lit ''b'')) = Inr (Some (lit ''b''))"
    by (simp_all add: check_envelope_def unquote_def envelope_forbidden_def strip_def strip_by_def py_space_def)
  have "ascii (concat (map (\<lambda>l. l @ CRLF) (envelope_lines p (Some (lit ''a'')) (Some (lit ''b'')))))" for p
    by (simp add: envelope_lines_def CRLF_def)
  then have "encode_py (concat (map (\<lambda>l. l @ CRLF) (envelope_lines p (Some (lit ''a'')) (Some (lit ''b'')))))
      = Inr (map oct (concat (map (\<lambda>l. l @ CRLF) (envelope_lines p (Some (lit ''a'')) (Some (lit ''b''))))))" for p
    by (simp only: encode_py_def encode_ascii option.case)
  with c show ?thesis by (simp add: prepare_message_def body_bytes_def Let_def del: lit_simps)
qed

lemma sample_gateway:
  "\<exists>db1. process_inbound sample_env sample_process JNull sample_store 7 (BodyBytes b) (Some (lit ''a'')) (Some (lit ''b''))
     = (db1, Inr (JInt 5))"
proof -
  obtain m where m: "prepare_message (BodyBytes b) (Some (lit ''a'')) (Some (lit ''b'')) = Inr m"
    using sample_prepared by blast
  obtain db1 where "fm_write sample_env (0, sample_store) [7] [(lit ''date'', JNull)] = Inr (0, db1)"
    using sample_written by blast
  with m show ?thesis by (simp add: process_inbound_def sample_process_def py_or_def del: lit_simps)
qed

theorem queue_to_gateway_witness:
  "\<exists>s r'. reachable sample_dep s \<and> r' \<in> set (inbox (wk s)) \<and> q_id r' = lit ''X'' \<and> q_status r' = StDelivered
     \<and> q_thread_id r' = Some (lit ''5'')"
proof -
  obtain s c r body where s: "reachable sample_dep s" "phase_of s = Fetching c r body []" "inbox (wk s) = [r]"
    and r: "q_status r = StPending" "q_id r = lit ''X''" "q_from r = lit ''a''" "q_to r = lit ''b''"
    and c: "webhook_secret c = lit ''0123456789abcdef''"
    by (rule sample_fetching)
  obtain hs where hs: "request_headers [] c r 1000 body = Some hs" using sample_request [OF r(3,4)] by blast
  have m: "r \<in> set (inbox (wk s))" by (simp add: s(3))
  have k: "encode (lit ''0123456789abcdef'') = Some (text_encode (webhook_secret c))"
    unfolding c sample_secret_bytes(2) sample_key_def by (subst text_encode_ascii) simp_all
  have t: "length (dec_nat (unix_seconds 1000)) \<le> 4300" "\<bar>1 - int (unix_seconds 1000)\<bar> \<le> 300"
    by (simp_all add: unix_seconds_def)
  obtain ef et where e: "ascii_value (q_from r) = Some ef" "ascii_value (q_to r) = Some et"
    and h: "headers_get hs HEADER_TIMESTAMP = Some (dec_nat (unix_seconds 1000))"
      "headers_get hs HEADER_SIGNATURE = Some (sign_body (text_encode (webhook_secret c)) (unix_seconds 1000) body)"
      "headers_get hs HEADER_ENVELOPE_FROM = Some ef" "headers_get hs HEADER_ENVELOPE_TO = Some et"
    by (rule request_headers_get [OF hs])
  have v: "ef = lit ''a''" "et = lit ''b''" using e r(3,4) sample_ascii by (simp_all del: lit_simps)
  obtain db1 where p: "process_inbound sample_env sample_process JNull sample_store 7 (BodyBytes body) (Some ef) (Some et)
      = (db1, Inr (JInt 5))" using sample_gateway v by blast
  have signed: "request_signed sample_env sample_store 1 7 hs body = Inr True"
    unfolding request_signed_def h sample_secret by (rule verify_worker_signature [OF sample_secret_bytes(1) k t])
  let ?w = "case headers_get hs HEADER_ID of None \<Rightarrow> JBool False | Some s \<Rightarrow> py_or (JStr s) (JBool False)"
  let ?a = "respond 200 None [(lit ''thread_id'', JInt 5), (lit ''id'', ?w)]"
  have i: "inbound sample_env sample_process 1 JNull sample_store (lit ''k'') hs body = (db1, Inr ?a)"
    using inbound_signed [OF sample_found signed] p h by (simp add: py_or_def del: lit_simps)
  have "headers_get hs HEADER_ID = Some (lit ''X'')"
    using hs r by (auto simp: request_headers_def delivery_headers_def HEADER_ID_def ascii_lower_def split: option.splits)
  then have "\<exists>b. encode (dumps (JObj (ans_payload ?a))) = Some b"
    by (simp add: respond_def py_or_def dumps_str_def dumps_char_def dec_int_def utf8_char_low)
  then obtain b where b: "encode (dumps (JObj (ans_payload ?a))) = Some b" ..
  obtain s' where s': "act_step sample_dep s (Answer 1000 (Answered \<lparr>resp_status = ans_status ?a, resp_body = Some b\<rparr>)) = Some s'"
    using s(2) by simp
  from queue_to_gateway [OF s(1,2) m refl r(1) hs sample_found sample_secret sample_secret_bytes(1) k t i b s'] e p
  obtain r' where "r' \<in> set (inbox (wk s'))" "q_id r' = q_id r" "q_status r' = StDelivered" "q_thread_id r' = Some (dec_int 5)"
    by auto
  moreover have "dec_int 5 = lit ''5''" by (simp add: dec_int_def)
  ultimately show ?thesis using reach_step [OF s(1) s'] r(2) by auto
qed

end
