(* ===== verification/Ulid.thy ===== *)
theory Ulid
  imports Rfc822 "HOL-Library.List_Lexorder"
begin

text \<open>
  The Worker's helpers (\<open>lib/util.ts\<close>): the ids of messages and the comparison of tokens.
\<close>

unbundle bit_operations_syntax

section \<open>Comparing tokens\<close>

text \<open>The comparison does not stop at the first difference.\<close>

definition timing_safe_equal :: "jsstr \<Rightarrow> jsstr \<Rightarrow> bool" where
  "timing_safe_equal a b =
     (let ab = text_encode a; bb = text_encode b in
      length ab = length bb \<and> foldl (\<lambda>diff (x, y). diff OR (x XOR y)) 0 (zip ab bb) = 0)"

lemma foldl_diff:
  "length xs = length ys \<Longrightarrow> foldl (\<lambda>diff (x, y). diff OR (x XOR y)) d (zip xs ys) = (0 :: byte) \<longleftrightarrow> d = 0 \<and> xs = ys"
proof (induction xs ys arbitrary: d rule: list_induct2)
  case (Cons x xs y ys)
  have self: "x XOR (x XOR y) = y" by (simp flip: xor.assoc)
  have "x = y" if "x XOR y = 0" using self unfolding that by simp
  then have "x XOR y = 0 \<longleftrightarrow> x = y" by auto
  then have "d OR (x XOR y) = 0 \<longleftrightarrow> d = 0 \<and> x = y"
    by (simp add: or_eq_0_iff)
  with Cons show ?case by simp
qed simp

lemma timing_safe_equal_iff: "timing_safe_equal a b \<longleftrightarrow> text_encode a = text_encode b"
  using foldl_diff [of "text_encode a" "text_encode b" 0] by (auto simp: timing_safe_equal_def Let_def)

section \<open>Identifiers\<close>

definition ULID_ALPHABET :: jsstr where "ULID_ALPHABET = lit ''0123456789ABCDEFGHJKMNPQRSTVWXYZ''"

definition ULID_TIME_CHARS :: nat where "ULID_TIME_CHARS = 10"

definition ULID_MAX_TIME :: nat where "ULID_MAX_TIME = 281474976710655"

definition ulid_char :: "nat \<Rightarrow> nat" where "ulid_char k = ULID_ALPHABET ! (k mod 32)"

text \<open>The loop puts one character in front of the text in each of its rounds.\<close>

fun encode_time_loop :: "nat \<Rightarrow> nat \<Rightarrow> jsstr \<Rightarrow> jsstr" where
  "encode_time_loop 0 remaining out = out"
| "encode_time_loop (Suc k) remaining out = encode_time_loop k (remaining div 32) (ulid_char remaining # out)"

definition encode_time :: "nat \<Rightarrow> jsstr" where
  "encode_time ms = encode_time_loop ULID_TIME_CHARS ms []"

text \<open>The inner loop of \<open>encodeRandom\<close>: five bits at a time. The accumulator stays below 2 to the 13, so JavaScript's 32-bit operations are exact.\<close>

fun emit_bits :: "nat \<Rightarrow> nat \<Rightarrow> jsstr \<times> nat" where
  "emit_bits acc bits =
     (if 5 \<le> bits then
        (case emit_bits acc (bits - 5) of (out, b) \<Rightarrow> (ulid_char (acc div 2 ^ (bits - 5)) # out, b))
      else ([], bits))"

declare emit_bits.simps [simp del]

fun encode_random_loop :: "nat \<Rightarrow> nat \<Rightarrow> bytes \<Rightarrow> jsstr" where
  "encode_random_loop acc bits [] = []"
| "encode_random_loop acc bits (b # bs) =
     (case emit_bits (acc * 256 + unat b) (bits + 8) of
        (out, bits1) \<Rightarrow> out @ encode_random_loop ((acc * 256 + unat b) mod 2 ^ bits1) bits1 bs)"

definition encode_random :: "bytes \<Rightarrow> jsstr" where
  "encode_random bs = encode_random_loop 0 0 bs"

text \<open>\<open>ulid\<close> with its clock and its ten random bytes; \<open>None\<close> is the \<open>RangeError\<close>.\<close>

definition ulid :: "nat \<Rightarrow> bytes \<Rightarrow> jsstr option" where
  "ulid now random = (if ULID_MAX_TIME < now then None else Some (encode_time now @ encode_random random))"

text \<open>\<open>/^[0-7][0-9A-HJKMNP-TV-Z]{25}$/\<close>\<close>

definition ulid_letter :: "nat \<Rightarrow> bool" where
  "ulid_letter c \<longleftrightarrow> (48 \<le> c \<and> c \<le> 57) \<or> (65 \<le> c \<and> c \<le> 72) \<or> c = 74 \<or> c = 75 \<or> c = 77 \<or> c = 78
     \<or> (80 \<le> c \<and> c \<le> 84) \<or> (86 \<le> c \<and> c \<le> 90)"

definition ulid_pattern :: "jsstr \<Rightarrow> bool" where
  "ulid_pattern s = (case s of [] \<Rightarrow> False | c # r \<Rightarrow> 48 \<le> c \<and> c \<le> 55 \<and> length r = 25 \<and> list_all ulid_letter r)"

section \<open>Their order\<close>

lemma alphabet_length: "length ULID_ALPHABET = 32"
  by (simp add: ULID_ALPHABET_def)

lemma alphabet_ranges: "ULID_ALPHABET = [48..<58] @ [65..<73] @ [74, 75, 77, 78] @ [80..<85] @ [86..<91]"
  by (simp add: ULID_ALPHABET_def upt_rec_numeral)

lemma alphabet_sorted: "sorted_wrt (<) ULID_ALPHABET"
  unfolding alphabet_ranges sorted_wrt_append by (auto simp: strict_sorted_iff)

lemma alphabet_letters: "list_all ulid_letter ULID_ALPHABET"
  by (simp add: ULID_ALPHABET_def ulid_letter_def)

lemma ulid_char_letter: "ulid_letter (ulid_char k)"
  using alphabet_letters by (simp add: ulid_char_def list_all_length alphabet_length)

lemma ulid_char_less: "i < j \<Longrightarrow> j < 32 \<Longrightarrow> ulid_char i < ulid_char j"
  using sorted_wrt_nth_less [OF alphabet_sorted, of i j] by (simp add: ulid_char_def alphabet_length)

text \<open>Without the accumulator.\<close>

fun base32 :: "nat \<Rightarrow> nat \<Rightarrow> jsstr" where
  "base32 0 n = []"
| "base32 (Suc k) n = base32 k (n div 32) @ [ulid_char n]"

lemma encode_time_loop_base32: "encode_time_loop k n out = base32 k n @ out"
  by (induction k n out rule: encode_time_loop.induct) simp_all

lemma length_base32 [simp]: "length (base32 k n) = k"
  by (induction k n rule: base32.induct) simp_all

lemma base32_letters: "list_all ulid_letter (base32 k n)"
  by (induction k n rule: base32.induct) (simp_all add: ulid_char_letter)

lemma less_append_same: "length xs = length ys \<Longrightarrow> xs < ys \<Longrightarrow> xs @ us < ys @ (vs :: nat list)"
  by (induction xs ys rule: list_induct2) auto

lemma append_less_iff: "xs @ us < xs @ vs \<longleftrightarrow> us < (vs :: nat list)"
  by (induction xs) auto

lemma base32_less: "m < n \<Longrightarrow> n < 32 ^ k \<Longrightarrow> base32 k m < base32 k n"
proof (induction k arbitrary: m n)
  case (Suc k)
  show ?case
  proof (cases "m div 32 < n div 32")
    case True
    have "n div 32 < 32 ^ k" using Suc.prems(2) by (simp add: less_mult_imp_div_less mult.commute)
    with Suc.IH [OF True] show ?thesis by (simp add: less_append_same)
  next
    case False
    with Suc.prems(1) have e: "m div 32 = n div 32" by (meson antisym_conv1 div_le_mono less_imp_le_nat not_less)
    with Suc.prems(1) have "m mod 32 < n mod 32" by (metis mult_div_mod_eq nat_add_left_cancel_less)
    then have "ulid_char m < ulid_char n"
      using ulid_char_less [of "m mod 32" "n mod 32"] by (simp add: ulid_char_def)
    with e show ?thesis by (simp add: append_less_iff)
  qed
qed simp

section \<open>Their form\<close>

lemma emit_bits_eq:
  "length (fst (emit_bits acc bits)) = bits div 5" "snd (emit_bits acc bits) = bits mod 5"
  "list_all ulid_letter (fst (emit_bits acc bits))"
proof (induction acc bits rule: emit_bits.induct)
  case (1 acc bits)
  {
    case 1
    with "1.IH"(1) show ?case
      by (subst emit_bits.simps) (auto simp: le_div_geq split: prod.split)
  next
    case 2
    with "1.IH"(2) show ?case
      by (subst emit_bits.simps) (auto simp: le_mod_geq split: prod.split)
  next
    case 3
    with "1.IH"(3) show ?case
      by (subst emit_bits.simps) (auto simp: ulid_char_letter split: prod.split)
  }
qed

lemma encode_random_loop_eq:
  "bits < 5 \<Longrightarrow> length (encode_random_loop acc bits bs) = (bits + 8 * length bs) div 5
     \<and> list_all ulid_letter (encode_random_loop acc bits bs)"
proof (induction acc bits bs rule: encode_random_loop.induct)
  case (2 acc bits b bs)
  obtain out b1 where o: "emit_bits (acc * 256 + unat b) (bits + 8) = (out, b1)" by force
  note e = emit_bits_eq [of "acc * 256 + unat b" "bits + 8", unfolded o fst_conv snd_conv]
  have "b1 < 5" by (simp add: e(2))
  from "2.IH" [OF o [symmetric] this] e
  have "length (encode_random_loop acc bits (b # bs)) = (bits + 8) div 5 + ((bits + 8) mod 5 + 8 * length bs) div 5"
    and l: "list_all ulid_letter (encode_random_loop acc bits (b # bs))"
    by (simp_all add: o)
  moreover have "(bits + 8) div 5 + ((bits + 8) mod 5 + 8 * length bs) div 5 = (bits + 8 + 8 * length bs) div 5"
  proof -
    define a where "a = bits + 8"
    have "a + 8 * length bs = (a mod 5 + 8 * length bs) + 5 * (a div 5)" by simp
    then have "(a + 8 * length bs) div 5 = a div 5 + (a mod 5 + 8 * length bs) div 5"
      by (simp only: div_mult_self2)
    then show ?thesis by (simp only: a_def)
  qed
  ultimately show ?case by (simp add: add.assoc)
qed simp

text \<open>
  C37. The ids sort by the time of arrival and can be addressed: an id minted from ten random
  bytes matches the pattern the operator API accepts, and one minted at a later millisecond is greater,
  whatever the random bytes; only a clock beyond 2 to the 48 fails.
\<close>

theorem ulid_sorts_and_matches:
  assumes "length rnd = 10" and "now \<le> ULID_MAX_TIME"
  shows "\<exists>i. ulid now rnd = Some i \<and> ulid_pattern i \<and> length i = 26
    \<and> (\<forall>later rnd' j. now < later \<and> ulid later rnd' = Some j \<longrightarrow> i < j)"
proof -
  let ?i = "base32 10 now @ encode_random rnd"
  have lim: "t \<le> ULID_MAX_TIME \<Longrightarrow> t < 32 ^ 10" for t by (simp add: ULID_MAX_TIME_def)
  have u: "ulid t r = (if ULID_MAX_TIME < t then None else Some (base32 10 t @ encode_random r))" for t r
    by (simp add: ulid_def encode_time_def ULID_TIME_CHARS_def encode_time_loop_base32)
  have r: "length (encode_random rnd) = 16" "list_all ulid_letter (encode_random rnd)"
    using encode_random_loop_eq [of 0 0 rnd] assms(1) by (simp_all add: encode_random_def)
  have "ulid_pattern ?i"
  proof -
    obtain c t where ct: "base32 10 now = c # t" "length t = 9" using length_base32 [of 10 now] by (cases "base32 10 now") auto
    have "base32 (Suc k) n = ulid_char (n div 32 ^ k) # base32 k n" for k n
      by (induction k arbitrary: n) (simp_all add: div_mult2_eq)
    from this [of 9 now] ct(1) have "c = ulid_char (now div 32 ^ 9)" by simp
    moreover have "now div 32 ^ 9 < 8" using assms(2) by (simp add: ULID_MAX_TIME_def less_mult_imp_div_less)
    moreover have "48 \<le> ulid_char k \<and> ulid_char k \<le> 55" if "k < 8" for k
    proof -
      have "list_all (\<lambda>c. 48 \<le> c \<and> c \<le> 55) (take 8 ULID_ALPHABET)" by (simp add: ULID_ALPHABET_def)
      with that show ?thesis by (simp add: list_all_length alphabet_length ulid_char_def)
    qed
    moreover have "list_all ulid_letter t" using base32_letters [of 10 now] by (simp add: ct(1))
    ultimately show ?thesis using ct r by (simp add: ulid_pattern_def)
  qed
  moreover have "?i < j" if "now < later" "ulid later rnd' = Some j" for later rnd' j
    using that base32_less [of now later 10] lim [of later] by (auto simp: u less_append_same split: if_splits)
  ultimately show ?thesis using assms(2) r by (intro exI [of _ ?i]) (auto simp: u)
qed

theorem ulid_sorts_and_matches_witness:
  "\<exists>i j. ulid 1 (replicate 10 255) = Some i \<and> ulid 2 (replicate 10 0) = Some j \<and> ulid_pattern i \<and> i < j"
proof -
  obtain j where j: "ulid 2 (replicate 10 0) = Some j" by (simp add: ulid_def ULID_MAX_TIME_def)
  have "length (replicate 10 (255 :: byte)) = 10" "1 \<le> ULID_MAX_TIME" by (simp_all add: ULID_MAX_TIME_def)
  from ulid_sorts_and_matches [OF this] j show ?thesis by (metis one_less_numeral_iff semiring_norm(76))
qed

end
