(* ===== verification/Ops.thy ===== *)
theory Ops
  imports Delivery Ulid
begin

text \<open>
  The operator API (\<open>handlers/ops.ts\<close> with \<open>lib/http.ts\<close>): the bearer token, the routes, and what
  each does to the queue. A request is its method, path, query parameters and
  \<open>Authorization\<close> header; R2 answers without failing.
\<close>

section \<open>lib/http.ts\<close>

text \<open>\<open>/^Bearer\s+(\S+)\s*$/i\<close>\<close>

definition bearer_token :: "jsstr option \<Rightarrow> jsstr option" where
  "bearer_token header =
     (case header of
        None \<Rightarrow> None
      | Some h \<Rightarrow>
          let r = drop 6 h; t = dropWhile js_space r;
              tk = takeWhile (\<lambda>c. \<not> js_space c) t; rest = dropWhile (\<lambda>c. \<not> js_space c) t in
          if map ascii_lower (take 6 h) = lit ''bearer'' \<and> r \<noteq> t \<and> tk \<noteq> [] \<and> list_all js_space rest
          then Some tk else None)"

definition int_param :: "(string \<Rightarrow> jsstr option) \<Rightarrow> string \<Rightarrow> nat \<Rightarrow> nat \<Rightarrow> nat" where
  "int_param params name fallback greatest =
     (case params name of
        None \<Rightarrow> fallback
      | Some raw \<Rightarrow>
          if \<not> all_digits raw then fallback
          else
            let value = decimal raw in
            if MAX_SAFE_INTEGER < value \<or> value < 1 then fallback else min value greatest)"

section \<open>handlers/ops.ts\<close>

definition LIST_DEFAULT :: nat where "LIST_DEFAULT = 50"
definition LIST_MAX :: nat where "LIST_MAX = 500"

record ops_request =
  op_method :: string
  op_path :: jsstr
  op_query :: "string \<Rightarrow> jsstr option"
  op_authorization :: "jsstr option"

text \<open>The answers, by what they carry; the status is \<open>ops_status\<close>.\<close>

datatype ops_answer =
    OpsHealth
  | OpsNotFound string
  | OpsUnauthorized
  | OpsBadRequest string
  | OpsItems "inbox_row list"
  | OpsRequeuedAll inbox_status nat
  | OpsItem inbox_row
  | OpsRemoved jsstr
  | OpsRaw jsstr bytes
  | OpsRequeued jsstr
  | OpsConflict string

fun ops_status :: "ops_answer \<Rightarrow> nat" where
  "ops_status (OpsNotFound m) = 404"
| "ops_status OpsUnauthorized = 401"
| "ops_status (OpsBadRequest m) = 400"
| "ops_status (OpsRequeuedAll st n) = 202"
| "ops_status (OpsRequeued i) = 202"
| "ops_status (OpsConflict m) = 409"
| "ops_status a = 200"

definition not_found :: ops_answer where "not_found = OpsNotFound ''not found''"

text \<open>\<open>isInboxStatus\<close>\<close>

definition inbox_status_of :: "jsstr \<Rightarrow> inbox_status option" where
  "inbox_status_of s =
     (if s = lit ''pending'' then Some StPending else if s = lit ''delivered'' then Some StDelivered
      else if s = lit ''rejected'' then Some StRejected else if s = lit ''dead'' then Some StDead else None)"

text \<open>\<open>/^\/inbox\/([^/]+)(?:\/(raw|retry))?$/\<close>: the id and the action.\<close>

datatype ops_action = NoAction | RawAction | RetryAction

definition item_route :: "jsstr \<Rightarrow> (jsstr \<times> ops_action) option" where
  "item_route path =
     (if take 7 path \<noteq> lit ''/inbox/'' then None
      else
        let i = takeWhile (\<lambda>c. c \<noteq> 47) (drop 7 path); t = dropWhile (\<lambda>c. c \<noteq> 47) (drop 7 path) in
        if i = [] then None
        else if t = [] then Some (i, NoAction)
        else if t = lit ''/raw'' then Some (i, RawAction)
        else if t = lit ''/retry'' then Some (i, RetryAction)
        else None)"

text \<open>The routes of one row.\<close>

definition handle_item :: "nat \<Rightarrow> string \<Rightarrow> jsstr \<Rightarrow> ops_action \<Rightarrow> worker \<Rightarrow> worker \<times> ops_answer" where
  "handle_item now method i action w =
     (if action = NoAction \<and> method = ''GET'' then
        (w, case find_row i (inbox w) of None \<Rightarrow> not_found | Some r \<Rightarrow> OpsItem r)
      else if action = NoAction \<and> method = ''DELETE'' then
        (case remove i w of (w1, True) \<Rightarrow> (w1, OpsRemoved i) | (w1, False) \<Rightarrow> (w1, not_found))
      else if action = RawAction \<and> method = ''GET'' then
        (w, case find_row i (inbox w) of
              None \<Rightarrow> not_found
            | Some r \<Rightarrow>
                (case bucket w (q_r2_key r) of
                   None \<Rightarrow> OpsNotFound ''stored message missing from R2'' | Some b \<Rightarrow> OpsRaw i b))
      else if action = RetryAction \<and> method = ''POST'' then
        (case retry now i w of
           (w1, Requeued) \<Rightarrow> (w1, OpsRequeued i)
         | (w1, AlreadyPending) \<Rightarrow> (w1, OpsConflict ''already pending'')
         | (w1, NotFound) \<Rightarrow> (w1, not_found))
      else (w, not_found))"

text \<open>The routes behind the token.\<close>

definition handle_authorized :: "nat \<Rightarrow> ops_request \<Rightarrow> worker \<Rightarrow> worker \<times> ops_answer" where
  "handle_authorized now req w =
     (if op_path req = lit ''/inbox'' \<and> op_method req = ''GET'' then
        let list = (\<lambda>st. OpsItems (list_rows st (int (int_param (op_query req) ''limit'' LIST_DEFAULT LIST_MAX)) w)) in
        (w, case op_query req ''status'' of
              None \<Rightarrow> list None
            | Some raw \<Rightarrow>
                (case inbox_status_of raw of None \<Rightarrow> OpsBadRequest ''invalid status'' | Some st \<Rightarrow> list (Some st)))
      else if op_path req = lit ''/inbox/retry'' \<and> op_method req = ''POST'' then
        (case Option.bind (op_query req ''status'') inbox_status_of of
           None \<Rightarrow> (w, OpsBadRequest ''status must be dead or rejected'')
         | Some st \<Rightarrow>
             (case retry_all now st w of
                None \<Rightarrow> (w, OpsBadRequest ''status must be dead or rejected'')
              | Some (w1, n) \<Rightarrow> (w1, OpsRequeuedAll st n)))
      else
        (case item_route (op_path req) of
           None \<Rightarrow> (w, not_found)
         | Some (i, action) \<Rightarrow>
             if ulid_pattern i then handle_item now (op_method req) i action w else (w, not_found)))"

definition handle_ops :: "worker_env \<Rightarrow> nat \<Rightarrow> ops_request \<Rightarrow> worker \<Rightarrow> worker \<times> ops_answer" where
  "handle_ops env now req w =
     (if op_method req = ''GET'' \<and> op_path req = lit ''/health'' then (w, OpsHealth)
      else
        (case ops_token_of env of
           None \<Rightarrow> (w, not_found)
         | Some tk \<Rightarrow>
             (case bearer_token (op_authorization req) of
                None \<Rightarrow> (w, OpsUnauthorized)
              | Some presented \<Rightarrow>
                  if timing_safe_equal presented tk then handle_authorized now req w else (w, OpsUnauthorized))))"

section \<open>Requests\<close>

lemma bearer_token_Some:
  "bearer_token h = Some t \<Longrightarrow> t \<noteq> [] \<and> list_all (\<lambda>c. \<not> js_space c) t"
proof -
  assume b: "bearer_token h = Some t"
  then obtain x where h: "h = Some x" by (cases h) (simp_all add: bearer_token_def)
  have t: "t = takeWhile (\<lambda>c. \<not> js_space c) (dropWhile js_space (drop 6 x))"
    using b unfolding bearer_token_def Let_def h option.case by (metis option.distinct(1) option.inject)
  have "t \<noteq> []"
    using b unfolding bearer_token_def Let_def h option.case t by (metis option.distinct(1))
  moreover have "\<forall>c \<in> set t. \<not> js_space c" unfolding t by (metis set_takeWhileD)
  ultimately show ?thesis by (simp add: list_all_iff)
qed

lemma ops_token_nonblank: "ops_token_of env = Some t \<Longrightarrow> t \<noteq> []"
  by (auto simp: ops_token_of_def present_vars_def split: option.splits if_splits)

lemma int_param_bounds: "1 \<le> fallback \<Longrightarrow> fallback \<le> greatest \<Longrightarrow> 1 \<le> int_param q n fallback greatest \<and> int_param q n fallback greatest \<le> greatest"
  by (auto simp: int_param_def Let_def split: option.split)

lemma retry_unchanged: "snd (retry now i w) \<noteq> Requeued \<Longrightarrow> fst (retry now i w) = w"
  by (simp add: retry_def Let_def split: if_splits)

lemma handle_item_change:
  assumes "handle_item now method i action w = (w', a)" and "w' \<noteq> w"
  shows "action = NoAction \<and> method = ''DELETE'' \<and> a = OpsRemoved i \<and> w' = fst (remove i w)
    \<or> action = RetryAction \<and> method = ''POST'' \<and> a = OpsRequeued i \<and> w' = fst (retry now i w)"
proof -
  have r: "fst (remove i w) = w" if "snd (remove i w) = False"
    using that by (simp add: remove_def split: option.splits)
  show ?thesis
    using assms r retry_unchanged [of now i w]
    by (auto simp: handle_item_def split: if_splits prod.splits bool.splits retry_result.splits)
qed

lemma handle_authorized_change:
  assumes "handle_authorized now req w = (w', a)" and "w' \<noteq> w"
  shows "(\<exists>st n. op_method req = ''POST'' \<and> op_path req = lit ''/inbox/retry'' \<and> st \<in> {StDead, StRejected}
        \<and> retry_all now st w = Some (w', n) \<and> a = OpsRequeuedAll st n)
    \<or> (\<exists>i. ulid_pattern i \<and> item_route (op_path req) = Some (i, NoAction) \<and> op_method req = ''DELETE''
        \<and> w' = fst (remove i w) \<and> a = OpsRemoved i)
    \<or> (\<exists>i. ulid_pattern i \<and> item_route (op_path req) = Some (i, RetryAction) \<and> op_method req = ''POST''
        \<and> w' = fst (retry now i w) \<and> a = OpsRequeued i)"
proof -
  have "st \<in> {StDead, StRejected}" if "retry_all now st w = Some x" for st x
    using that by (auto simp: retry_all_def split: if_splits)
  with assms show ?thesis
    by (auto simp: handle_authorized_def Let_def simp del: lit_simps dest: handle_item_change
        split: if_splits option.splits prod.splits)
qed

lemma handle_ops_change:
  "handle_ops env now req w = (w', a) \<Longrightarrow> w' \<noteq> w \<Longrightarrow> handle_authorized now req w = (w', a)"
  by (auto simp: handle_ops_def simp del: lit_simps split: if_splits option.splits)

text \<open>A removal by the API is the three steps of one in a row.\<close>

lemma remove_steps:
  assumes "fst (remove i (wk s)) \<noteq> wk s"
  shows "\<exists>k s'. run_acts D [RemoveBegin i, RemoveObject i k, RemoveEnd i k] s = Some s'
    \<and> s' = s\<lparr>wk := fst (remove i (wk s)), discarded := insert i (discarded s)\<rparr>"
proof -
  obtain k where k: "remove_key i (wk s) = Some k"
    using assms by (cases "remove_key i (wk s)") (simp_all add: remove_def)
  then have r: "fst (remove i (wk s)) = remove_row i (delete_objects [k] (wk s))" by (simp add: remove_def)
  show ?thesis by (rule exI [of _ k]) (simp add: k r)
qed

definition sample_dead :: inbox_row where
  "sample_dead = (new_row \<lparr>e_id = lit ''X'', e_r2_key = lit ''X'', e_from = [], e_to = [], e_message_id = None, e_size = 0,
     e_received_at = 0\<rparr> 0)\<lparr>q_status := StDead, q_next_attempt_at := None\<rparr>"

definition sample_ops :: ops_request where
  "sample_ops = \<lparr>op_method = ''POST'', op_path = lit ''/inbox/retry'', op_query = [''status'' \<mapsto> lit ''dead''],
     op_authorization = Some (lit ''bearer  t '')\<rparr>"

lemma sample_token: "ops_token_of [''OPS_TOKEN'' \<mapsto> lit '' t''] = Some (lit ''t'')"
  by (simp add: ops_token_of_def present_vars_def VAR_NAMES_def js_trim_def strip_by_def js_space_def)

lemma sample_bearer: "bearer_token (op_authorization sample_ops) = Some (lit ''t'')"
  by (simp add: bearer_token_def sample_ops_def Let_def js_space_def ascii_lower_def)

section \<open>Properties\<close>

text \<open>
  C22. Nothing of the queue is seen or changed without the token: an answer other than those of
  the public health check, of an unknown route and of a refused token, and every change of the
  state, requires a configured token and a bearer token with the same octets; with no token configured, or a
  blank one, every request but the health check is a 404. And a change is the documented effect
  of its route on a well-formed id, answered with success.
\<close>

theorem ops_need_token:
  assumes "handle_ops env now req w = (w', a)"
  shows "(w' \<noteq> w \<or> a \<notin> {OpsHealth, OpsUnauthorized, not_found} \<longrightarrow>
        (\<exists>tk presented. ops_token_of env = Some tk \<and> tk \<noteq> [] \<and> bearer_token (op_authorization req) = Some presented
           \<and> text_encode presented = text_encode tk))
    \<and> (ops_token_of env = None \<longrightarrow> w' = w \<and> (a = OpsHealth \<or> ops_status a = 404))
    \<and> (w' \<noteq> w \<longrightarrow>
        (\<exists>st n. op_method req = ''POST'' \<and> op_path req = lit ''/inbox/retry'' \<and> st \<in> {StDead, StRejected}
            \<and> retry_all now st w = Some (w', n) \<and> a = OpsRequeuedAll st n)
        \<or> (\<exists>i. ulid_pattern i \<and> item_route (op_path req) = Some (i, NoAction) \<and> op_method req = ''DELETE''
            \<and> w' = fst (remove i w) \<and> a = OpsRemoved i)
        \<or> (\<exists>i. ulid_pattern i \<and> item_route (op_path req) = Some (i, RetryAction) \<and> op_method req = ''POST''
            \<and> w' = fst (retry now i w) \<and> a = OpsRequeued i))"
proof (intro conjI impI)
  assume "w' \<noteq> w \<or> a \<notin> {OpsHealth, OpsUnauthorized, not_found}"
  with assms show "\<exists>tk presented. ops_token_of env = Some tk \<and> tk \<noteq> []
      \<and> bearer_token (op_authorization req) = Some presented \<and> text_encode presented = text_encode tk"
    using ops_token_nonblank [of env]
    by (auto simp: handle_ops_def timing_safe_equal_iff simp del: lit_simps split: if_splits option.splits)
next
  assume "ops_token_of env = None"
  with assms show "w' = w" "a = OpsHealth \<or> ops_status a = 404"
    by (auto simp: handle_ops_def not_found_def simp del: lit_simps split: if_splits)
next
  assume n: "w' \<noteq> w"
  from handle_authorized_change [OF handle_ops_change [OF assms n] n]
  show "(\<exists>st n. op_method req = ''POST'' \<and> op_path req = lit ''/inbox/retry'' \<and> st \<in> {StDead, StRejected}
            \<and> retry_all now st w = Some (w', n) \<and> a = OpsRequeuedAll st n)
        \<or> (\<exists>i. ulid_pattern i \<and> item_route (op_path req) = Some (i, NoAction) \<and> op_method req = ''DELETE''
            \<and> w' = fst (remove i w) \<and> a = OpsRemoved i)
        \<or> (\<exists>i. ulid_pattern i \<and> item_route (op_path req) = Some (i, RetryAction) \<and> op_method req = ''POST''
            \<and> w' = fst (retry now i w) \<and> a = OpsRequeued i)" .
qed

theorem ops_need_token_witness:
  "\<exists>w'. handle_ops [''OPS_TOKEN'' \<mapsto> lit '' t''] 9 sample_ops \<lparr>inbox = [sample_dead], alarm_at = None, bucket = (\<lambda>k. None)\<rparr>
      = (w', OpsRequeuedAll StDead 1)
     \<and> alarm_at w' = Some 9 \<and> bearer_token (op_authorization sample_ops) = Some (lit ''t'')"
proof -
  let ?w = "\<lparr>inbox = [sample_dead], alarm_at = None, bucket = (\<lambda>k. None)\<rparr>"
  note t = sample_token and b = sample_bearer
  have r: "retry_all 9 StDead ?w = Some (arm_no_later_than 9 (update_rows (\<lambda>r. q_status r = StDead) (requeued 9) ?w), 1)"
    by (simp add: retry_all_def sample_dead_def)
  have st: "inbox_status_of (lit ''dead'') = Some StDead" by (simp add: inbox_status_of_def lit_inject del: lit_simps)
  have h: "handle_ops [''OPS_TOKEN'' \<mapsto> lit '' t''] 9 sample_ops ?w
      = (arm_no_later_than 9 (update_rows (\<lambda>r. q_status r = StDead) (requeued 9) ?w), OpsRequeuedAll StDead 1)"
    unfolding handle_ops_def t b option.case timing_safe_equal_iff
    by (simp add: handle_authorized_def sample_ops_def st r lit_inject del: lit_simps)
  let ?w' = "arm_no_later_than 9 (update_rows (\<lambda>r. q_status r = StDead) (requeued 9) ?w)"
  have a: "alarm_at ?w' = Some 9" by (simp add: arm_no_later_than_def)
  have "?w' \<noteq> ?w" using a by (metis option.distinct(1) worker.select_convs(2))
  with ops_need_token [OF h] t have "\<exists>presented. bearer_token (op_authorization sample_ops) = Some presented" by blast
  with h a b show ?thesis by blast
qed

text \<open>
  C34. The API only makes the Worker do what its queue can do: whatever an operator requests in a
  reachable state, the state after the answer is reachable too, with the alarm handler, the
  messages in flight and what has been accepted, stored and delivered as they were; a message
  is given up only when the answer says that it was removed.
\<close>

theorem ops_requests_are_steps:
  assumes "reachable D s" and "handle_ops env now req (wk s) = (w', a)"
  shows "\<exists>s'. reachable D s' \<and> wk s' = w' \<and> phase_of s' = phase_of s \<and> arriving s' = arriving s
      \<and> accepted s' = accepted s \<and> content s' = content s \<and> handed s' = handed s
      \<and> discarded s' = (case a of OpsRemoved i \<Rightarrow> insert i (discarded s) | _ \<Rightarrow> discarded s)"
proof (cases "w' = wk s")
  case True
  have "a \<noteq> OpsRemoved i" for i
  proof
    assume a: "a = OpsRemoved i"
    then have "snd (remove i (wk s)) \<and> w' = fst (remove i (wk s))"
      using assms(2)
      by (auto simp: handle_ops_def handle_authorized_def handle_item_def not_found_def Let_def simp del: lit_simps
          split: if_splits option.splits prod.splits bool.splits retry_result.splits)
    then obtain k r where "find_row i (inbox (wk s)) = Some r" "w' = remove_row i (delete_objects [k] (wk s))"
      by (auto simp: remove_def remove_key_def split: option.splits)
    then have "find_row i (inbox (wk s)) \<noteq> None \<and> find_row i (inbox w') = None"
      by (auto simp: remove_row_def delete_rows_def delete_objects_def find_row_def find_None_iff)
    with True show False by auto
  qed
  then show ?thesis using assms(1) True by (intro exI [of _ s]) (simp split: ops_answer.split)
next
  case False
  from handle_authorized_change [OF handle_ops_change [OF assms(2) False] False]
  consider st n where "retry_all now st (wk s) = Some (w', n)" "a = OpsRequeuedAll st n"
    | i where "w' = fst (remove i (wk s))" "a = OpsRemoved i"
    | i where "w' = fst (retry now i (wk s))" "a = OpsRequeued i" by blast
  then show ?thesis
  proof cases
    case (1 st n)
    then have "act_step D s (RetryAll st now) = Some (s\<lparr>wk := w'\<rparr>)" by simp
    from reach_step [OF assms(1) this] 1(2) show ?thesis by (intro exI [of _ "s\<lparr>wk := w'\<rparr>"]) simp
  next
    case (2 i)
    with False remove_steps [of i s D] obtain k where
      "run_acts D [RemoveBegin i, RemoveObject i k, RemoveEnd i k] s = Some (s\<lparr>wk := w', discarded := insert i (discarded s)\<rparr>)"
      by auto
    from reachable_run [OF assms(1) this] 2(2) show ?thesis
      by (intro exI [of _ "s\<lparr>wk := w', discarded := insert i (discarded s)\<rparr>"]) simp
  next
    case (3 i)
    then have "act_step D s (Retry i now) = Some (s\<lparr>wk := w'\<rparr>)" by simp
    from reach_step [OF assms(1) this] 3(2) show ?thesis by (intro exI [of _ "s\<lparr>wk := w'\<rparr>"]) simp
  qed
qed

theorem ops_requests_are_steps_witness:
  "\<exists>s s' w'. reachable sample_dep s
     \<and> handle_ops [''OPS_TOKEN'' \<mapsto> lit '' t''] 9 (sample_ops\<lparr>op_query := [''status'' \<mapsto> lit ''rejected'']\<rparr>) (wk s)
         = (w', OpsRequeuedAll StRejected 1)
     \<and> reachable sample_dep s' \<and> wk s' = w' \<and> (\<exists>t. alarm_at w' = Some t \<and> t \<le> 9)"
proof -
  obtain s0 c r body where s0: "reachable sample_dep s0" "phase_of s0 = Fetching c r body []" "inbox (wk s0) = [r]"
    "q_status r = StPending"
    by (rule sample_fetching)
  have c: "config_ok c" using reachable_inv [OF s0(1)] s0(2) by (simp add: sys_inv_def inv_phase_def)
  let ?f = "Answered \<lparr>resp_status = 422, resp_body = None\<rparr>"
  let ?s = "got_answer 1000 ?f c r [] s0"
  have f: "\<not> success ?f" "\<not> transient ?f" by (simp_all add: success_def transient_def)
  have "act_step sample_dep s0 (Answer 1000 ?f) = Some ?s" using s0(2) by simp
  with s0(1) have s: "reachable sample_dep ?s" by (rule reach_step)
  obtain r1 where a: "answered_row c 1000 ?f (q_attempts r + 1) r = Some r1"
    using answered_row_total [OF c] by blast
  have i: "inbox (wk ?s) = [r1]" using got_answer_inbox [OF c, of 1000 ?f r "[]" s0] s0(3,4) a by simp
  have r1: "q_status r1 = StRejected" using answered_row_cases [OF a] f by simp
  let ?w' = "arm_no_later_than 9 (update_rows (\<lambda>r. q_status r = StRejected) (requeued 9) (wk ?s))"
  have ra: "retry_all 9 StRejected (wk ?s) = Some (?w', 1)" by (simp add: retry_all_def i r1)
  have st: "inbox_status_of (lit ''rejected'') = Some StRejected" by (simp add: inbox_status_of_def lit_inject del: lit_simps)
  have b: "bearer_token (op_authorization (sample_ops\<lparr>op_query := [''status'' \<mapsto> lit ''rejected'']\<rparr>)) = Some (lit ''t'')"
    using sample_bearer by (simp del: lit_simps)
  have h: "handle_ops [''OPS_TOKEN'' \<mapsto> lit '' t''] 9 (sample_ops\<lparr>op_query := [''status'' \<mapsto> lit ''rejected'']\<rparr>) (wk ?s)
      = (?w', OpsRequeuedAll StRejected 1)"
    unfolding handle_ops_def sample_token b option.case timing_safe_equal_iff
    by (simp add: handle_authorized_def sample_ops_def st ra lit_inject del: lit_simps)
  have "\<exists>t. alarm_at ?w' = Some t \<and> t \<le> 9"
    by (auto simp: arm_no_later_than_def split: option.splits)
  with s h ops_requests_are_steps [OF s h] show ?thesis by blast
qed

text \<open>
  The listing is the newest rows first: between one and 500 rows, each in the queue and with the status
  asked for, in descending order of their ids, and none left out that is newer than one shown.
\<close>

theorem listing_newest_first:
  assumes "distinct (map q_id (inbox w))" and "rows = list_rows st (int (int_param q ''limit'' LIST_DEFAULT LIST_MAX)) w"
  shows "length rows \<le> 500 \<and> sorted_wrt (\<lambda>x y. q_id y < q_id x) rows
    \<and> set rows \<subseteq> {r \<in> set (inbox w). st = None \<or> st = Some (q_status r)}
    \<and> (\<forall>r \<in> set (inbox w). (st = None \<or> st = Some (q_status r)) \<and> r \<notin> set rows
        \<longrightarrow> rows \<noteq> [] \<and> (\<forall>x \<in> set rows. q_id r < q_id x))"
proof -
  let ?n = "int_param q ''limit'' LIST_DEFAULT LIST_MAX"
  let ?all = "sort_key q_id (filter (\<lambda>r. case st of None \<Rightarrow> True | Some s \<Rightarrow> q_status r = s) (inbox w))"
  have n: "1 \<le> ?n" "?n \<le> 500" using int_param_bounds [of LIST_DEFAULT LIST_MAX q "''limit''"] by (simp_all add: LIST_DEFAULT_def LIST_MAX_def)
  then have rows: "rows = take ?n (rev ?all)" by (simp add: assms(2) list_rows_def MAX_LIST_def)
  have "distinct (map q_id (filter (\<lambda>r. case st of None \<Rightarrow> True | Some s \<Rightarrow> q_status r = s) (inbox w)))"
    using assms(1) by (simp add: distinct_map_filter)
  then have "distinct (map q_id ?all)" by (simp add: distinct_map)
  then have "sorted_wrt (<) (map q_id ?all)" using sorted_sort_key by (simp add: strict_sorted_iff)
  then have srt: "sorted_wrt (\<lambda>x y. q_id y < q_id x) (rev ?all)" by (simp add: sorted_wrt_rev sorted_wrt_map)
  then have d: "sorted_wrt (\<lambda>x y. q_id y < q_id x) (take ?n (rev ?all) @ drop ?n (rev ?all))" by (simp only: append_take_drop_id)
  have mem: "set ?all = {r \<in> set (inbox w). st = None \<or> st = Some (q_status r)}" by (cases st) auto
  have rest: "rows \<noteq> [] \<and> (\<forall>x \<in> set rows. q_id r < q_id x)"
    if "r \<in> set (inbox w)" "st = None \<or> st = Some (q_status r)" "r \<notin> set rows" for r
  proof -
    have r: "r \<in> set (rev ?all)" using that(1,2) mem by (simp only: set_rev mem_Collect_eq)
    then have "r \<in> set (drop ?n (rev ?all))"
      using that(3) unfolding rows by (metis Un_iff append_take_drop_id set_append)
    moreover have "rows \<noteq> []" using r n(1) unfolding rows by (metis append_Nil empty_iff empty_set not_one_le_zero take_eq_Nil)
    ultimately show ?thesis using d by (simp only: rows sorted_wrt_append) blast
  qed
  have "set rows \<subseteq> set ?all" unfolding rows by (metis set_rev set_take_subset)
  moreover have "length rows \<le> 500" using n(2) by (simp add: rows)
  moreover have "sorted_wrt (\<lambda>x y. q_id y < q_id x) rows" unfolding rows by (rule sorted_wrt_take [OF srt])
  ultimately show ?thesis using rest unfolding mem by blast
qed

theorem listing_newest_first_witness:
  "list_rows None (int (int_param (\<lambda>n. None) ''limit'' LIST_DEFAULT LIST_MAX))
     \<lparr>inbox = [sample_dead, sample_dead\<lparr>q_id := lit ''Y''\<rparr>], alarm_at = None, bucket = (\<lambda>k. None)\<rparr>
     = [sample_dead\<lparr>q_id := lit ''Y''\<rparr>, sample_dead]"
proof -
  let ?w = "\<lparr>inbox = [sample_dead, sample_dead\<lparr>q_id := lit ''Y''\<rparr>], alarm_at = None, bucket = (\<lambda>k. None)\<rparr>"
  let ?l = "list_rows None (int (int_param (\<lambda>n. None) ''limit'' LIST_DEFAULT LIST_MAX)) ?w"
  have t: "distinct (map q_id (inbox ?w))" by (simp add: sample_dead_def new_row_def)
  have "length ?l = 2" by (simp add: list_rows_def int_param_def LIST_DEFAULT_def MAX_LIST_def)
  then obtain x y where l: "?l = [x, y]" by (auto simp: length_Suc_conv numeral_2_eq_2)
  from listing_newest_first [OF t l [symmetric]] have "q_id y < q_id x" "x \<in> set (inbox ?w)" "y \<in> set (inbox ?w)" by auto
  then show ?thesis unfolding l by (auto simp: sample_dead_def new_row_def)
qed

end
