(* ===== verification/Spec2Isabelle.thy ===== *)
theory Spec2Isabelle
  imports MailServer Webhook EndToEnd Ops
begin

text \<open>
  A model of the Odoo module \<open>mail_cloudflare\<close> (\<open>src/mail_cloudflare\<close>), which sends mail through
  the Cloudflare Email Sending API and receives the mail a Cloudflare Email Worker posts to a
  webhook; and of that Worker (\<open>src/worker\<close>). All code of the two that decides something is a
  definition here.

  \<^bold>\<open>The parts and how they interact.\<close>

  Outbound. Odoo's \<open>ir.mail_server.connect\<close> is overridden (\<open>models/ir_mail_server.py\<close>): for a
  Cloudflare server it returns a \<open>CloudflareSendingSession\<close> (\<open>cloudflare_api.py\<close>). Each
  \<open>send_message\<close> of the session builds one JSON request from the message and the envelope
  recipients, posts it up to three times, and turns what the API answers into a result or a
  \<open>CloudflareEmailError\<close>; a credential error makes the rest of the batch fail without requests.

  Inbound. The Worker (\<open>src/worker\<close>, TypeScript) receives a message, writes the envelope into
  it, stores it in an R2 bucket and queues it (\<open>handlers/email.ts\<close>, \<open>inbox-do.ts\<close>). Its alarm posts
  the stored message with a timestamp, a signature and the envelope in headers, and settles
  the row by the status of the answer; operators see and change the queue through an HTTP API
  (\<open>handlers/ops.ts\<close>). On the other side the controller (\<open>controllers/main.py\<close>) looks the
  server up by the key in the URL, checks the signature and hands the message to Odoo's mail
  gateway (\<open>models/fetchmail_server.py\<close>); the status of its answer tells the Worker whether to
  retry.

  \<^bold>\<open>The theories.\<close>

  \<^item> Prelude: results that may be an exception (\<open>Inl\<close>), dictionaries as association lists, runs
    of a step function over a list of calls, and the locales \<open>step_invariant\<close>,
    \<open>step_progress\<close>, \<open>step_cost\<close> and \<open>fail_fast\<close>: contracts of such step functions.
  \<^item> PyText, PyStr, PyJson: Python's \<open>str\<close> (lists of code points), \<open>bytes\<close>, UTF-8, decimal
    numbers, \<open>strip\<close>, \<open>lower\<close>; the dynamic values of JSON with truth, \<open>get\<close>, \<open>repr\<close> and
    \<open>json.dumps\<close>; the exceptions.
  \<^item> Message: the parts of an \<open>EmailMessage\<close> the code reads. Base64: the standard and the
    URL-safe alphabet.
  \<^item> Recipients: \<open>_address\<close> and \<open>_split_recipients\<close>. Content: \<open>_iter_leaves\<close>, \<open>_attachment\<close>,
    \<open>_extract_content\<close>. Headers: the allow-list and \<open>_passthrough_headers\<close>. Payload:
    \<open>build_payload\<close> and the JSON it becomes. Http: \<open>_parse_json\<close>, \<open>_describe\<close>,
    \<open>_first_code\<close>, \<open>_retry_after\<close>, \<open>verify_token\<close>. Session: the session class, with the
    interpretations \<open>batch\<close>, \<open>batch_inv\<close>, \<open>batch_cost\<close> and \<open>batch_log\<close> of the Prelude's locales on
    \<open>send_message\<close>.
  \<^item> Orm: the record store as a parameter with the locale \<open>orm_laws\<close>, interpreted on a store in
    memory. MailServer: the \<open>ir.mail_server\<close> extension; the locale \<open>mail_store\<close> extends
    \<open>orm_laws\<close>, and its sublocale \<open>config\<close> makes the credentials constraint an invariant.
  \<^item> Envelope: \<open>_existing_header_names\<close>, \<open>_cloudflare_check_envelope\<close>,
    \<open>_cloudflare_prepare_message\<close>, and the Worker's \<open>asciiValue\<close> (\<open>inbox-do.ts\<close>). Sha256: SHA-256
    and HMAC on 32-bit words. Signature: \<open>_cloudflare_verify_signature\<close> and the Worker's
    \<open>lib/sign.ts\<close>; the locale \<open>hex_mac\<close> is what the check needs of a digest. Url: \<open>urlsplit\<close> and
    \<open>hostname\<close>.
  \<^item> Fetchmail: the rest of \<open>models/fetchmail_server.py\<close>; the locale \<open>fetchmail_store\<close> extends
    \<open>orm_laws\<close> by the SQL constraint and what core's confirmation leaves alone, with
    sublocales for the two invariants. Registry: the abstract map from webhook keys to
    servers that the records implement. Inbound: the controller, the headers of a Worker's
    attempt and \<open>classifyStatus\<close> (\<open>lib/backoff.ts\<close>). Webhook: the route in front of it.
  \<^item> Rfc822: strings of UTF-16 code units, and \<open>lib/rfc822.ts\<close>, which writes the envelope into a
    message. Config: the retry schedule (\<open>lib/backoff.ts\<close>) and \<open>config.ts\<close>. JsJson: \<open>JSON.parse\<close>.
  \<^item> Queue: the rows of \<open>inbox-do.ts\<close>, its operations and the pieces of a delivery pass, and
    \<open>handlers/email.ts\<close>; the locale \<open>row_law\<close> says which updates keep a table well formed for any
    law of its rows. Machine: the Worker as a step relation (\<open>act_step\<close>, \<open>reachable\<close>) over a queue,
    an alarm, a bucket and the operations in flight, with the interpretation \<open>sys_rows\<close> of
    \<open>row_law\<close> and the invariant \<open>sys_inv\<close>. Delivery: what becomes of one row over its attempts.
    EndToEnd: an attempt of the queue against the webhook of theory Inbound.
  \<^item> Ulid: \<open>lib/util.ts\<close>. Ops: \<open>lib/http.ts\<close> and \<open>handlers/ops.ts\<close>.

  \<^bold>\<open>State.\<close> A session is the record \<open>session\<close>; only \<open>fatal_error\<close> changes. The network is a
  function \<open>net\<close> from the number of the request to its reply, and \<open>world\<close> counts the requests
  and keeps the log of events. A database is a value of any type, used through the operations
  of \<open>orm\<close> only; a random draw is numbered. The Worker's state is the record \<open>worker\<close> (table, alarm,
  bucket) inside the record \<open>sys\<close>, which adds where the alarm handler is, the handlers and
  removals in flight, and ghost fields for what has been stored, accepted, handed over and
  discarded. Each step is the code between two points where it waits, so mail, operators and
  the delivery pass interleave in every order the platform allows, with failures of R2 and of
  the network and the loss of the object's memory as steps of their own. Exceptions are \<open>Inl\<close>, and operations that change
  state before they raise return the state with the exception.

  \<^bold>\<open>What the lemmas show.\<close> Recipients, Headers, Content, Payload: every request covers
  exactly the envelope, passes only allowed headers within the limits, and the loop that
  trims References ends. Session: the retry loop equals a loop-free description, is bounded in
  requests and pauses, fails fast after a credential error, and a send that returns has
  reached somebody. MailServer: no session without credentials; the connection test.
  Envelope, Signature, Inbound: no header injection, acceptance of exactly the right
  signatures, agreement with the Worker, the meaning of every status and the rollback.
  Fetchmail, Registry, Webhook: credentials and keys are kept, a duplicate
  gets its own, the webhook look-up is a registry, and the URL in the form reaches the server. Four
  theorems of Recipients, Headers, Session and Envelope show where the code falls short of
  what it says, and the one on address transport shows what the Worker cannot transport.
  Rfc822: the Worker and the module write the same envelope fields. Config: the bounds of a
  configuration. JsJson: \<open>JSON.parse\<close> reads what \<open>json.dumps\<close> writes. Machine: in every reachable
  state no accepted message is lost, the rows are well formed, and the alarm is set while there
  is work. Delivery: an answer changes exactly its row, the budget of attempts is exact; and
  three findings: a delivery that throws is repeated without a wait or a count, a row requeued
  during the purge loses its message, and some senders make the e-mail handler throw. EndToEnd:
  the row ends as the processing of the message did. Ulid, Ops: ids sort by time, nothing
  happens without the token, and every request is a run of the machine.

  \<^bold>\<open>Bounds and termination.\<close> The only fuel is that of the model of \<open>JSON.parse\<close>, twice the length
  of the text plus one; theory JsJson proves that more never changes the result. \<open>_post\<close>
  recurses over the list \<open>[1, 2, 3]\<close> of its attempts; the trimming loop is a function with a
  measure, and the while loop as written is proved to end with the same result; the scans of
  \<open>_MSGID_RE\<close> and of \<open>unquote\<close> and the inner loop of \<open>encodeRandom\<close> have a measure too; all
  other recursion is structural.

  \<^bold>\<open>Parameters.\<close> Code that is not in the repository is an argument: \<open>email_split_tuples\<close>,
  \<open>guess_extension\<close>, the parsed form of a message, the Unicode database (\<open>interp\<close>), the network,
  the record store, core's own \<open>connect\<close>, \<open>test_smtp_connection\<close>, \<open>button_confirm_login\<close>,
  \<open>_find_mail_server\<close> and \<open>message_process\<close>, translation, \<open>human_size\<close>, and the library's check
  of a network location. Addition of floats is a parameter too. Of the Worker's platform: the
  validation library's URL check, the clock, the random bytes, the outcomes of R2 and of
  \<open>fetch\<close>, and the query and headers of a request once parsed.

  \<^bold>\<open>Not modelled.\<close> The manifest, package files and views hold no behaviour of the program;
  of the field declarations those of the webhook are modelled, the others name fields only.
  Log lines are left out except the warning on recipients, whose text is computed;
  \<open>ensure_db\<close> is Odoo's dispatch. Of the Worker:
  \<open>index.ts\<close> wires the handlers to the platform, and its 500 for an exception of the operator
  API is left out with the failures of R2 there; the metadata of an R2 object matters only in
  that writing it can throw; the SQLite storage of the Durable Object does not fail; nobody
  else deletes objects from the bucket; bodies are not streamed. A schedule entry is exact,
  where a JavaScript product of more than 2 to the 53 milliseconds would be rounded.
  Access rights (\<open>sudo\<close>) are not modelled: the models read the fields as the superuser does.
  A record that does not exist has unspecified fields, where the code raises \<open>MissingError\<close>.
\<close>

end
